theory Spec2Isabelle
  imports Complex_Main "HOL-Library.AList" "HOL-Library.Multiset"
begin

section \<open>Values, strings and the engine\<close>

text \<open>
  What a client can put on the wire, and so what a handler can find in its argument and
  in the fields of it: \<^verbatim>\<open>undefined\<close> (no argument, no such field), \<^verbatim>\<open>null\<close>, a boolean,
  a number (the finite doubles are rational numbers), a string, an array, an object as
  the list of its fields (read from the front), a binary attachment, which arrives as a
  \<^verbatim>\<open>Buffer\<close> of bytes. An acknowledgement callback reads as an object: it has none of the
  fields the handlers look at but \<^verbatim>\<open>name\<close>. Player names and roles come from the wire
  and are stored as they come.
\<close>

datatype jsval =
    JUndefined
  | JNull
  | JBool bool
  | JNum rat
  | JStr string
  | JArr "jsval list"
  | JObj "(string \<times> jsval) list"
  | JBuf "nat list"

text \<open>The truth value of a value in \<^verbatim>\<open>name || ...\<close>.\<close>

fun js_truthy :: "jsval \<Rightarrow> bool" where
  "js_truthy JUndefined = False"
| "js_truthy JNull = False"
| "js_truthy (JBool b) = b"
| "js_truthy (JNum q) = (q \<noteq> 0)"
| "js_truthy (JStr s) = (s \<noteq> [])"
| "js_truthy (JArr xs) = True"
| "js_truthy (JObj kvs) = True"
| "js_truthy (JBuf bs) = True"

text \<open>
  Destructuring \<^verbatim>\<open>{roomId, ...}\<close> throws on \<^verbatim>\<open>undefined\<close> and \<^verbatim>\<open>null\<close>; of any other value
  it reads the named fields, which only an object has.
\<close>

definition nullish :: "jsval \<Rightarrow> bool" where
  "nullish v = (v = JUndefined \<or> v = JNull)"

definition field :: "jsval \<Rightarrow> string \<Rightarrow> jsval" where
  "field v k =
     (case v of
        JObj kvs \<Rightarrow> (case map_of kvs k of None \<Rightarrow> JUndefined | Some x \<Rightarrow> x)
      | _ \<Rightarrow> JUndefined)"

text \<open>
  JavaScript strings are modelled as \<^typ>\<open>string\<close>, the list of their UTF-8 bytes; the
  Vietnamese literals of \<^verbatim>\<open>server.js\<close> are written as those bytes. \<^verbatim>\<open>toUpperCase\<close> and
  \<^verbatim>\<open>trim\<close> are functions of the engine (below), which knows the case mappings and the
  white space of Unicode; what they do on ASCII is \<open>ascii_toUpperCase\<close>, which maps the
  letters a-z to A-Z, and \<open>ascii_trim\<close>, which removes tab, line feed, vertical tab, form
  feed, carriage return and space at both ends.
\<close>

definition ascii_toUpperCase :: "string \<Rightarrow> string" where
  "ascii_toUpperCase s =
     map (\<lambda>c. case map_of (zip ''abcdefghijklmnopqrstuvwxyz'' ''ABCDEFGHIJKLMNOPQRSTUVWXYZ'') c of
                 None \<Rightarrow> c | Some u \<Rightarrow> u) s"

definition is_space :: "char \<Rightarrow> bool" where
  "is_space c = (c \<in> set [CHR 0x09, CHR 0x0A, CHR 0x0B, CHR 0x0C, CHR 0x0D, CHR '' ''])"

definition ascii_trim :: "string \<Rightarrow> string" where
  "ascii_trim s = rev (dropWhile is_space (rev (dropWhile is_space s)))"

text \<open>\<^verbatim>\<open>s.charAt(i)\<close>: the one-character string at index \<open>i\<close>, the empty string out of range.\<close>

definition charAt :: "string \<Rightarrow> nat \<Rightarrow> string" where
  "charAt s i = (if i < length s then [s ! i] else [])"

text \<open>\<^verbatim>\<open>s.substr(0, n)\<close>.\<close>

definition substr0 :: "string \<Rightarrow> nat \<Rightarrow> string" where
  "substr0 s n = take n s"

text \<open>A number inside a template literal: its decimal digits.\<close>

function show_nat :: "nat \<Rightarrow> string" where
  "show_nat n = (if n < 10 then charAt ''0123456789'' n
                 else show_nat (n div 10) @ charAt ''0123456789'' (n mod 10))"
  by pat_completeness auto
termination
  by (relation "measure (\<lambda>n. n)") auto

declare show_nat.simps [simp del]

text \<open>
  The \<^verbatim>\<open>length\<close> of a string counts UTF-16 code units, and spreading a string gives its
  code points, each as a string. In UTF-8 a code point is a byte that is not a
  continuation byte (\<open>0x80\<close> to \<open>0xBF\<close>) followed by its continuation bytes, and takes two
  code units when its first byte is \<open>0xF0\<close> or more.
\<close>

definition is_cont :: "char \<Rightarrow> bool" where
  "is_cont b = (128 \<le> (of_char b :: nat) \<and> (of_char b :: nat) < 192)"

definition utf16_length :: "string \<Rightarrow> nat" where
  "utf16_length s =
     sum_list (map (\<lambda>b. if is_cont b then 0 else if (of_char b :: nat) < 240 then 1 else 2) s)"

function code_points :: "string \<Rightarrow> string list" where
  "code_points [] = []"
| "code_points (b # bs) = (b # takeWhile is_cont bs) # code_points (dropWhile is_cont bs)"
  by pat_completeness auto
termination
  by (relation "measure length") (auto simp: length_dropWhile_le less_Suc_eq_le)

text \<open>
  The engine a handler runs on gives it what is not in the program.
  \<^verbatim>\<open>Math.random()\<close>: \<open>random eng k\<close> stands for the \<open>k\<close>-th draw of the run, and
  \<^verbatim>\<open>Math.floor(Math.random() * n)\<close> is an integer of \<open>{0..<n}\<close>, modelled as the draw reduced
  modulo \<open>n\<close>, so that every index the code can compute is the image of some stream and no
  other is. The call stack: \<open>stack eng\<close> is the number of nested calls of
  \<^verbatim>\<open>generateRoomCode\<close> it has room for. The string methods \<^verbatim>\<open>toUpperCase\<close> and \<^verbatim>\<open>trim\<close>.
  The string conversion in a template literal of a number that is not an element count,
  of an array and of an object, \<open>to_string eng\<close>. Nothing is assumed of these functions.
\<close>

type_synonym random = "nat \<Rightarrow> nat"

record engine =
  random :: random
  stack :: nat
  toUpperCase :: "string \<Rightarrow> string"
  trim :: "string \<Rightarrow> string"
  to_string :: "jsval \<Rightarrow> string"

definition random_below :: "random \<Rightarrow> nat \<Rightarrow> nat \<Rightarrow> nat" where
  "random_below rnd k n = rnd k mod n"

section \<open>Game state\<close>

datatype status = Waiting | Assigned

text \<open>A player's \<^verbatim>\<open>id\<close> is a connection identifier; \<^verbatim>\<open>role\<close> starts as \<^verbatim>\<open>null\<close>.\<close>

record player =
  pid :: string
  name :: jsval
  role :: jsval

record room =
  moderatorId :: "string option"
  players :: "player list"
  status :: status

text \<open>
  \<^verbatim>\<open>rooms\<close> is a JavaScript \<^verbatim>\<open>Map\<close>: an association list in insertion order, read with
  \<^const>\<open>map_of\<close>, written with \<^const>\<open>AList.update\<close> (an existing key keeps its place, a
  new one goes to the end) and \<^const>\<open>AList.delete\<close>.
\<close>

type_synonym registry = "(string \<times> room) list"

definition has :: "registry \<Rightarrow> string \<Rightarrow> bool" where
  "has rooms code = (map_of rooms code \<noteq> None)"

subsection \<open>generateRoomCode\<close>

definition chars :: string where
  "chars = ''ABCDEFGHJKLMNPQRSTUVWXYZ23456789''"

text \<open>The \<^verbatim>\<open>for\<close> loop of \<^verbatim>\<open>generateRoomCode\<close>: \<open>n\<close> iterations are left, \<open>k\<close> draws are used.\<close>

fun code_loop :: "random \<Rightarrow> nat \<Rightarrow> nat \<Rightarrow> string \<Rightarrow> string" where
  "code_loop rnd k 0 code = code"
| "code_loop rnd k (Suc n) code =
     code_loop rnd (Suc k) n (code @ charAt chars (random_below rnd k (length chars)))"

text \<open>
  The retry is a recursive call. As the function is written, on a stack without bound:
  when every attempt collides it does not return, which is the value \<open>None\<close>.
\<close>

partial_function (option) generateRoomCode :: "registry \<Rightarrow> random \<Rightarrow> nat \<Rightarrow> string option" where
  "generateRoomCode rooms rnd k =
     (let code = code_loop rnd k 4 [] in
      if has rooms code then generateRoomCode rooms rnd (k + 4) else Some code)"

text \<open>
  The same function on a stack with room for \<open>d\<close> nested calls: the call that finds no
  room throws \<^verbatim>\<open>RangeError\<close>, which no caller catches.
\<close>

datatype error = TypeError | RangeError

fun generateRoomCode_on :: "nat \<Rightarrow> registry \<Rightarrow> random \<Rightarrow> nat \<Rightarrow> error + string" where
  "generateRoomCode_on 0 rooms rnd k = Inl RangeError"
| "generateRoomCode_on (Suc d) rooms rnd k =
     (let code = code_loop rnd k 4 [] in
      if has rooms code then generateRoomCode_on d rooms rnd (k + 4) else Inr code)"

subsection \<open>getRoom, buildRoleSummary\<close>

text \<open>\<^verbatim>\<open>getRoom\<close> returns the room and the registry, which it extends when the key is new.\<close>

definition getRoom :: "string \<Rightarrow> registry \<Rightarrow> room \<times> registry" where
  "getRoom roomId rooms =
     (case map_of rooms roomId of
        None \<Rightarrow> (let fresh = \<lparr>moderatorId = None, players = [], status = Waiting\<rparr>
                 in (fresh, AList.update roomId fresh rooms))
      | Some room \<Rightarrow> (room, rooms))"

definition buildRoleSummary :: "player list \<Rightarrow> (jsval \<times> jsval) list" where
  "buildRoleSummary ps = map (\<lambda>p. (name p, role p)) ps"

text \<open>
  The truth value of \<^verbatim>\<open>room.moderatorId\<close> in a condition: \<^verbatim>\<open>null\<close> and the empty string
  are false.
\<close>

definition truthy :: "string option \<Rightarrow> bool" where
  "truthy m = (case m of None \<Rightarrow> False | Some x \<Rightarrow> x \<noteq> [])"

section \<open>Outbound messages\<close>

datatype role_type = Moderator | Player

datatype msg =
    Room_created string
  | Role_assigned role_type "string option"
  | Player_list_update "player list"
  | Player_count_update nat
  | Init_state bool nat
  | Receive_role jsval
  | Role_summary "(jsval \<times> jsval) list"
  | Status_msg string
  | Error_msg string
  | Room_reset
  | Mod_status_update bool
  | Kicked

text \<open>
  \<^verbatim>\<open>socket.emit\<close> and \<^verbatim>\<open>targetSocket.emit\<close> address one connection; \<^verbatim>\<open>io.to(x).emit\<close>
  addresses the transport's group named \<open>x\<close>, where \<open>x\<close> is a room code or a connection
  identifier (every connection is in the group of its own identifier).
\<close>

datatype dest = To_socket string | To_group string

type_synonym emission = "dest \<times> msg"

definition msg_no_room :: "string \<Rightarrow> string" where
  "msg_no_room code =
     ''Ph'' @ [CHR 0xC3, CHR 0xB2] @ ''ng '' @ [CHR 0x22] @ code @ [CHR 0x22] @ '' kh''
     @ [CHR 0xC3, CHR 0xB4] @ ''ng t'' @ [CHR 0xE1, CHR 0xBB, CHR 0x93] @ ''n t''
     @ [CHR 0xE1, CHR 0xBA, CHR 0xA1] @ ''i!''"

definition msg_mismatch_text :: "string \<Rightarrow> string \<Rightarrow> string" where
  "msg_mismatch_text k n =
     ''Kh'' @ [CHR 0xC3, CHR 0xB4] @ ''ng kh'' @ [CHR 0xE1, CHR 0xBB, CHR 0x9B] @ ''p! Roles: ''
     @ k @ '', Players: '' @ n"

definition msg_mismatch :: "nat \<Rightarrow> nat \<Rightarrow> string" where
  "msg_mismatch k n = msg_mismatch_text (show_nat k) (show_nat n)"

definition msg_assigned :: string where
  "msg_assigned =
     [CHR 0xC4, CHR 0x90, CHR 0xC3, CHR 0xA3] @ '' chia b'' @ [CHR 0xC3, CHR 0xA0] @ ''i th''
     @ [CHR 0xC3, CHR 0xA0] @ ''nh c'' @ [CHR 0xC3, CHR 0xB4] @ ''ng!''"

definition msg_reset :: string where
  "msg_reset =
     [CHR 0xC4, CHR 0x90, CHR 0xC3, CHR 0xA3] @ '' reset! S'' @ [CHR 0xE1, CHR 0xBA, CHR 0xB5]
     @ ''n s'' @ [CHR 0xC3, CHR 0xA0] @ ''ng chia l'' @ [CHR 0xE1, CHR 0xBA, CHR 0xA1] @ ''i.''"

definition msg_kicked :: string where
  "msg_kicked =
     ''B'' @ [CHR 0xE1, CHR 0xBA, CHR 0xA1] @ ''n '' @ [CHR 0xC4, CHR 0x91, CHR 0xC3, CHR 0xA3]
     @ '' b'' @ [CHR 0xE1, CHR 0xBB, CHR 0x8B] @ '' Qu'' @ [CHR 0xE1, CHR 0xBA, CHR 0xA3]
     @ ''n tr'' @ [CHR 0xC3, CHR 0xB2] @ '' kick kh'' @ [CHR 0xE1, CHR 0xBB, CHR 0x8F]
     @ ''i ph'' @ [CHR 0xC3, CHR 0xB2] @ ''ng.''"

section \<open>The server state and the inbound events\<close>

text \<open>
  Beside \<^verbatim>\<open>rooms\<close> the handlers read and write two tables of the transport:
  \<^verbatim>\<open>io.sockets.sockets\<close>, the connected identifiers, and the group memberships
  (\<^verbatim>\<open>socket.join\<close>, \<^verbatim>\<open>targetSocket.leave\<close>) as pairs (group, identifier).
\<close>

record state =
  rooms :: registry
  sockets :: "string list"
  groups :: "(string \<times> string) list"

text \<open>
  An inbound event carries the first argument the client sent, \<^verbatim>\<open>undefined\<close> when it sent
  none; \<^verbatim>\<open>create_room\<close> and \<^verbatim>\<open>disconnect\<close> read no argument.
\<close>

datatype event =
    Create_room
  | Join_room jsval
  | Start_assign_roles jsval
  | Reset_room jsval
  | Kick_player jsval
  | Disconnect

text \<open>
  A handler returns the new state and the messages it emitted, in order; or it throws,
  leaving the state as it stands at the \<^verbatim>\<open>throw\<close>.
\<close>

datatype outcome = Throws error state | Returns state "emission list"

section \<open>cleanupUser\<close>

text \<open>
  The body of the \<^verbatim>\<open>for\<close> loop at one entry: the room as the body leaves it, \<open>None\<close> when
  the body deletes the entry, and the messages emitted.
\<close>

definition cleanup_entry :: "string \<Rightarrow> string \<Rightarrow> room \<Rightarrow> room option \<times> emission list" where
  "cleanup_entry socketId roomId room =
     (let (room1, em1) =
            (if moderatorId room = Some socketId
             then (room\<lparr>moderatorId := None\<rparr>, [(To_group roomId, Mod_status_update False)])
             else (room, []));
          before = length (players room1);
          room2 = room1\<lparr>players := filter (\<lambda>p. pid p \<noteq> socketId) (players room1)\<rparr>;
          em2 =
            (if length (players room2) \<noteq> before
             then (To_group roomId, Player_count_update (length (players room2)))
                  # (case moderatorId room2 of
                       None \<Rightarrow> []
                     | Some m \<Rightarrow> if m \<noteq> [] then [(To_group m, Player_list_update (players room2))]
                                else [])
             else [])
      in (if length (players room2) = 0 \<and> \<not> truthy (moderatorId room2) then None else Some room2,
          em1 @ em2))"

text \<open>
  The loop over \<^verbatim>\<open>rooms.entries()\<close>, in insertion order; deleting the entry under the
  iterator does not disturb the iteration.
\<close>

fun cleanupUser :: "string \<Rightarrow> registry \<Rightarrow> registry \<times> emission list" where
  "cleanupUser socketId [] = ([], [])"
| "cleanupUser socketId ((roomId, room) # rest) =
     (let (kept, em) = cleanup_entry socketId roomId room;
          (rest', em') = cleanupUser socketId rest
      in ((case kept of None \<Rightarrow> rest' | Some room' \<Rightarrow> (roomId, room') # rest'), em @ em'))"

section \<open>The event handlers\<close>

definition on_create_room :: "engine \<Rightarrow> string \<Rightarrow> state \<Rightarrow> outcome" where
  "on_create_room eng sid s =
     (case generateRoomCode_on (stack eng) (rooms s) (random eng) 0 of
        Inl e \<Rightarrow> Throws e s
      | Inr code \<Rightarrow>
          (let (room, rooms1) = getRoom code (rooms s);
               room' = room\<lparr>moderatorId := Some sid\<rparr>
           in Returns
                (s\<lparr>rooms := AList.update code room' rooms1,
                   groups := List.insert (code, sid) (groups s)\<rparr>)
                [(To_socket sid, Room_created code),
                 (To_socket sid, Role_assigned Moderator None),
                 (To_socket sid, Player_list_update (players room')),
                 (To_socket sid, Init_state True 0)]))"

definition default_name :: "string \<Rightarrow> string" where
  "default_name sid = ''Player_'' @ substr0 sid 4"

text \<open>
  \<^verbatim>\<open>roomId.toUpperCase()\<close> throws unless \<^verbatim>\<open>roomId\<close> is a string: \<^verbatim>\<open>undefined\<close> and \<^verbatim>\<open>null\<close>
  have no properties, and on every other value of the wire \<^verbatim>\<open>toUpperCase\<close> is not a
  function.
\<close>

definition on_join_room :: "engine \<Rightarrow> string \<Rightarrow> jsval \<Rightarrow> state \<Rightarrow> outcome" where
  "on_join_room eng sid payload s =
     (if nullish payload then Throws TypeError s
      else case field payload ''roomId'' of
        JStr roomId \<Rightarrow>
          (let code = trim eng (toUpperCase eng roomId) in
           case map_of (rooms s) code of
             None \<Rightarrow> Returns s [(To_socket sid, Error_msg (msg_no_room code))]
           | Some room \<Rightarrow>
               (let isExist = find (\<lambda>p. pid p = sid) (players room);
                    room' =
                      (if isExist = None
                       then room\<lparr>players := players room @
                              [\<lparr>pid = sid,
                                name = (if js_truthy (field payload ''name'')
                                        then field payload ''name''
                                        else JStr (default_name sid)),
                                role = JNull\<rparr>]\<rparr>
                       else room)
                in Returns
                     (s\<lparr>rooms := AList.update code room' (rooms s),
                        groups := List.insert (code, sid) (groups s)\<rparr>)
                     ([(To_socket sid, Role_assigned Player (Some code)),
                       (To_group code, Player_count_update (length (players room')))]
                      @ (case moderatorId room' of
                           None \<Rightarrow> []
                         | Some m \<Rightarrow> if m \<noteq> [] then [(To_group m, Player_list_update (players room'))]
                                    else [])
                      @ [(To_socket sid,
                          Init_state (truthy (moderatorId room')) (length (players room')))])))
      | _ \<Rightarrow> Throws TypeError s)"

text \<open>
  \<^verbatim>\<open>selectedRoles.length\<close>: reading it throws on \<^verbatim>\<open>undefined\<close> and \<^verbatim>\<open>null\<close> (\<open>None\<close>); a
  string, an array and a \<^verbatim>\<open>Buffer\<close> have their lengths, an object has the field if it has
  one, a boolean and a number have none (\<^verbatim>\<open>undefined\<close>).
\<close>

definition js_length :: "jsval \<Rightarrow> jsval option" where
  "js_length v =
     (case v of
        JUndefined \<Rightarrow> None
      | JNull \<Rightarrow> None
      | JStr x \<Rightarrow> Some (JNum (of_nat (utf16_length x)))
      | JArr xs \<Rightarrow> Some (JNum (of_nat (length xs)))
      | JObj kvs \<Rightarrow> Some (field v ''length'')
      | JBuf bs \<Rightarrow> Some (JNum (of_nat (length bs)))
      | _ \<Rightarrow> Some JUndefined)"

text \<open>
  \<^verbatim>\<open>${selectedRoles.length}\<close> in the error message: the decimal numeral when it is the
  length of an array, of a string or of a \<^verbatim>\<open>Buffer\<close>; otherwise the conversion of the
  value found under \<^verbatim>\<open>length\<close>.
\<close>

definition template :: "engine \<Rightarrow> jsval \<Rightarrow> string" where
  "template eng v =
     (case v of
        JUndefined \<Rightarrow> ''undefined''
      | JNull \<Rightarrow> ''null''
      | JBool b \<Rightarrow> (if b then ''true'' else ''false'')
      | JStr x \<Rightarrow> x
      | _ \<Rightarrow> to_string eng v)"

definition length_text :: "engine \<Rightarrow> jsval \<Rightarrow> string" where
  "length_text eng v =
     (case v of
        JStr x \<Rightarrow> show_nat (utf16_length x)
      | JArr xs \<Rightarrow> show_nat (length xs)
      | JBuf bs \<Rightarrow> show_nat (length bs)
      | _ \<Rightarrow> template eng (case js_length v of None \<Rightarrow> JUndefined | Some l \<Rightarrow> l))"

text \<open>
  \<^verbatim>\<open>[...selectedRoles]\<close>: an array, a string and a \<^verbatim>\<open>Buffer\<close> can be spread, nothing else
  (\<open>None\<close>: \<^verbatim>\<open>TypeError\<close>).
\<close>

definition spread :: "jsval \<Rightarrow> jsval list option" where
  "spread v =
     (case v of
        JArr xs \<Rightarrow> Some xs
      | JStr x \<Rightarrow> Some (map JStr (code_points x))
      | JBuf bs \<Rightarrow> Some (map (\<lambda>b. JNum (of_nat b)) bs)
      | _ \<Rightarrow> None)"

text \<open>
  The Fisher-Yates loop: \<open>i\<close> runs from \<open>length - 1\<close> down to 1, \<open>k\<close> counts the draws.
  The destructuring swap reads both cells before it writes them.
\<close>

fun shuffle_loop :: "random \<Rightarrow> nat \<Rightarrow> nat \<Rightarrow> 'a list \<Rightarrow> 'a list" where
  "shuffle_loop rnd k 0 shuffled = shuffled"
| "shuffle_loop rnd k (Suc n) shuffled =
     (let i = Suc n;
          j = random_below rnd k (i + 1)
      in shuffle_loop rnd (Suc k) n (shuffled[i := shuffled ! j, j := shuffled ! i]))"

definition fisher_yates :: "random \<Rightarrow> 'a list \<Rightarrow> 'a list" where
  "fisher_yates rnd selectedRoles = shuffle_loop rnd 0 (length selectedRoles - 1) selectedRoles"

text \<open>
  \<^verbatim>\<open>players.forEach((player, index) => ...)\<close> with \<open>shuffled\<close> the roles from \<open>index\<close> on;
  past the end of \<open>shuffled\<close> the role read is \<^verbatim>\<open>undefined\<close>.
\<close>

fun assign_each :: "player list \<Rightarrow> jsval list \<Rightarrow> player list \<times> emission list" where
  "assign_each [] shuffled = ([], [])"
| "assign_each (p # ps) (r # shuffled) =
     (let (ps', em) = assign_each ps shuffled
      in (p\<lparr>role := r\<rparr> # ps', (To_group (pid p), Receive_role r) # em))"
| "assign_each (p # ps) [] =
     (let (ps', em) = assign_each ps []
      in (p\<lparr>role := JUndefined\<rparr> # ps', (To_group (pid p), Receive_role JUndefined) # em))"

definition on_start_assign_roles :: "engine \<Rightarrow> string \<Rightarrow> jsval \<Rightarrow> state \<Rightarrow> outcome" where
  "on_start_assign_roles eng sid payload s =
     (if nullish payload then Throws TypeError s
      else case field payload ''roomId'' of
        JStr roomId \<Rightarrow>
          (case map_of (rooms s) roomId of
             None \<Rightarrow> Returns s []
           | Some room \<Rightarrow>
               if Some sid \<noteq> moderatorId room then Returns s []
               else (case js_length (field payload ''selectedRoles'') of
                       None \<Rightarrow> Throws TypeError s
                     | Some len \<Rightarrow>
                         if len \<noteq> JNum (of_nat (length (players room)))
                         then Returns s
                                [(To_socket sid,
                                  Error_msg (msg_mismatch_text
                                    (length_text eng (field payload ''selectedRoles''))
                                    (show_nat (length (players room)))))]
                         else (case spread (field payload ''selectedRoles'') of
                                 None \<Rightarrow> Throws TypeError s
                               | Some roles \<Rightarrow>
                                   (let shuffled = fisher_yates (random eng) roles;
                                        (ps', em) = assign_each (players room) shuffled;
                                        room' = room\<lparr>players := ps', status := Assigned\<rparr>
                                    in Returns
                                         (s\<lparr>rooms := AList.update roomId room' (rooms s)\<rparr>)
                                         (em @ [(To_socket sid,
                                                 Role_summary (buildRoleSummary ps')),
                                                (To_socket sid, Status_msg msg_assigned)])))))
      | _ \<Rightarrow> Returns s [])"

definition on_reset_room :: "string \<Rightarrow> jsval \<Rightarrow> state \<Rightarrow> outcome" where
  "on_reset_room sid payload s =
     (if nullish payload then Throws TypeError s
      else case field payload ''roomId'' of
        JStr roomId \<Rightarrow>
          (case map_of (rooms s) roomId of
             None \<Rightarrow> Returns s []
           | Some room \<Rightarrow>
               if Some sid \<noteq> moderatorId room then Returns s []
               else (let room' = room\<lparr>players := map (\<lambda>p. p\<lparr>role := JNull\<rparr>) (players room),
                                       status := Waiting\<rparr>
                     in Returns
                          (s\<lparr>rooms := AList.update roomId room' (rooms s)\<rparr>)
                          [(To_group roomId, Room_reset),
                           (To_socket sid, Player_list_update (players room')),
                           (To_socket sid, Player_count_update (length (players room'))),
                           (To_socket sid, Status_msg msg_reset)]))
      | _ \<Rightarrow> Returns s [])"

text \<open>
  \<^verbatim>\<open>p.id !== playerId\<close> holds of every player when \<^verbatim>\<open>playerId\<close> is not a string, and
  \<^verbatim>\<open>io.sockets.sockets.get(playerId)\<close> finds a connection only under its identifier.
  Past the guard \<^verbatim>\<open>room.moderatorId\<close> is \<^verbatim>\<open>socket.id\<close>, so \<^verbatim>\<open>io.to(room.moderatorId)\<close>
  is the group of the caller's identifier.
\<close>

definition on_kick_player :: "string \<Rightarrow> jsval \<Rightarrow> state \<Rightarrow> outcome" where
  "on_kick_player sid payload s =
     (if nullish payload then Throws TypeError s
      else case field payload ''roomId'' of
        JStr roomId \<Rightarrow>
          (case map_of (rooms s) roomId of
             None \<Rightarrow> Returns s []
           | Some room \<Rightarrow>
               if Some sid \<noteq> moderatorId room then Returns s []
               else (let playerId = field payload ''playerId'';
                         room' = room\<lparr>players := filter (\<lambda>p. JStr (pid p) \<noteq> playerId) (players room)\<rparr>;
                         em = [(To_group roomId, Player_count_update (length (players room'))),
                               (To_group sid, Player_list_update (players room'))];
                         s' = s\<lparr>rooms := AList.update roomId room' (rooms s)\<rparr>
                     in case playerId of
                          JStr target \<Rightarrow>
                            if target \<in> set (sockets s)
                            then Returns
                                   (s'\<lparr>groups := removeAll (roomId, target) (groups s)\<rparr>)
                                   (em @ [(To_socket target, Kicked),
                                          (To_socket target, Error_msg msg_kicked)])
                            else Returns s' em
                        | _ \<Rightarrow> Returns s' em))
      | _ \<Rightarrow> Returns s [])"

text \<open>
  The transport takes a dropped connection out of its tables before the
  \<^verbatim>\<open>disconnect\<close> handler runs.
\<close>

definition transport_drop :: "string \<Rightarrow> state \<Rightarrow> state" where
  "transport_drop sid s =
     s\<lparr>sockets := removeAll sid (sockets s),
       groups := filter (\<lambda>(g, c). c \<noteq> sid) (groups s)\<rparr>"

definition on_disconnect :: "string \<Rightarrow> state \<Rightarrow> outcome" where
  "on_disconnect sid s =
     (let (rooms', em) = cleanupUser sid (rooms s)
      in Returns (transport_drop sid s\<lparr>rooms := rooms'\<rparr>) em)"

text \<open>The dispatch of one inbound event of the connection \<open>sid\<close>.\<close>

fun handle :: "engine \<Rightarrow> string \<Rightarrow> event \<Rightarrow> state \<Rightarrow> outcome" where
  "handle eng sid Create_room s = on_create_room eng sid s"
| "handle eng sid (Join_room payload) s = on_join_room eng sid payload s"
| "handle eng sid (Start_assign_roles payload) s = on_start_assign_roles eng sid payload s"
| "handle eng sid (Reset_room payload) s = on_reset_room sid payload s"
| "handle eng sid (Kick_player payload) s = on_kick_player sid payload s"
| "handle eng sid Disconnect s = on_disconnect sid s"

text \<open>The \<^verbatim>\<open>connection\<close> event: the transport registers the new connection.\<close>

definition connection :: "string \<Rightarrow> state \<Rightarrow> state" where
  "connection sid s = s\<lparr>sockets := sockets s @ [sid]\<rparr>"

definition init :: state where
  "init = \<lparr>rooms = [], sockets = [], groups = []\<rparr>"

section \<open>Runs of the server\<close>

text \<open>
  The transport hands out connection identifiers. What is used of its contract: an
  identifier is not empty and is not a room code (the transport's identifiers are 20
  characters long), and no two live connections share one.
\<close>

definition is_room_code :: "string \<Rightarrow> bool" where
  "is_room_code c = (length c = 4 \<and> set c \<subseteq> set chars)"

definition valid_socket_id :: "string \<Rightarrow> bool" where
  "valid_socket_id sid = (sid \<noteq> [] \<and> \<not> is_room_code sid)"

text \<open>
  A step of a run is a new connection or an inbound event of a live connection, handled to
  completion on the engine of that moment. A run stops (\<open>None\<close>) at a step the transport
  cannot produce and at a handler that throws: nothing catches the exception, and the
  process ends.
\<close>

datatype step = Connect string | Inbound string event engine

fun exec :: "step list \<Rightarrow> state \<Rightarrow> state option" where
  "exec [] s = Some s"
| "exec (Connect sid # tr) s =
     (if sid \<in> set (sockets s) \<or> \<not> valid_socket_id sid then None
      else exec tr (connection sid s))"
| "exec (Inbound sid ev eng # tr) s =
     (if sid \<notin> set (sockets s) then None
      else case handle eng sid ev s of
             Returns s' em \<Rightarrow> exec tr s'
           | Throws e s' \<Rightarrow> None)"

subsection \<open>Invariants of the reachable states\<close>

definition room_ok :: "room \<Rightarrow> bool" where
  "room_ok r =
     (\<not> (players r = [] \<and> moderatorId r = None)
      \<and> distinct (map pid (players r))
      \<and> (case moderatorId r of None \<Rightarrow> True | Some m \<Rightarrow> valid_socket_id m)
      \<and> (\<forall>p \<in> set (players r). valid_socket_id (pid p)))"

definition registry_ok :: "registry \<Rightarrow> bool" where
  "registry_ok rs =
     (distinct (map fst rs) \<and> (\<forall>(c, r) \<in> set rs. is_room_code c \<and> room_ok r))"

definition wf_state :: "state \<Rightarrow> bool" where
  "wf_state s =
     (registry_ok (rooms s)
      \<and> (\<forall>(g, x) \<in> set (groups s). is_room_code g)
      \<and> (\<forall>x \<in> set (sockets s). valid_socket_id x))"

subsection \<open>Who is involved in a room, who receives a message\<close>


text \<open>
  The connections a message may reach under the membership table \<open>grp\<close>: the one
  addressed, or the members of the group addressed, a connection being a member of the
  group of its own identifier.
\<close>

definition receives :: "(string \<times> string) list \<Rightarrow> dest \<Rightarrow> string \<Rightarrow> bool" where
  "receives grp d c =
     (case d of To_socket x \<Rightarrow> c = x | To_group g \<Rightarrow> c = g \<or> (g, c) \<in> set grp)"

text \<open>What the connection \<open>c\<close> is sent of the messages \<open>em\<close>, in order.\<close>

definition view :: "string \<Rightarrow> (string \<times> string) list \<Rightarrow> emission list \<Rightarrow> msg list" where
  "view c grp em = map snd (filter (\<lambda>(d, m). receives grp d c) em)"

text \<open>The messages with no field for a role.\<close>

fun role_free :: "msg \<Rightarrow> bool" where
  "role_free (Player_list_update ps) = False"
| "role_free (Receive_role r) = False"
| "role_free (Role_summary rs) = False"
| "role_free m = True"

text \<open>
  The three messages with a role field, and to whom each may go in the state \<open>s\<close>:
  \<^verbatim>\<open>receive_role\<close> to a player of some room who holds that very role, the player list and
  the role summary of a room to that room's moderator.
\<close>

definition rightly_addressed :: "state \<Rightarrow> string \<Rightarrow> msg \<Rightarrow> bool" where
  "rightly_addressed s c m =
     (case m of
        Receive_role r \<Rightarrow>
          (\<exists>(code, room) \<in> set (rooms s). \<exists>p \<in> set (players room). pid p = c \<and> role p = r)
      | Player_list_update ps \<Rightarrow>
          (\<exists>(code, room) \<in> set (rooms s). moderatorId room = Some c \<and> ps = players room)
      | Role_summary xs \<Rightarrow>
          (\<exists>(code, room) \<in> set (rooms s).
             moderatorId room = Some c \<and> xs = buildRoleSummary (players room))
      | _ \<Rightarrow> True)"

text \<open>
  What the connection \<open>c\<close> is entitled to know of a state: everything but the roles of
  the other players in the rooms it does not moderate. \<open>hide c\<close> blanks those roles; two
  states with the same image differ in nothing else.
\<close>

definition blank :: "string \<Rightarrow> player \<Rightarrow> player" where
  "blank c p = (if pid p = c then p else p\<lparr>role := JNull\<rparr>)"

definition hide_room :: "string \<Rightarrow> room \<Rightarrow> room" where
  "hide_room c r =
     (if moderatorId r = Some c then r else r\<lparr>players := map (blank c) (players r)\<rparr>)"

definition hide_rooms :: "string \<Rightarrow> registry \<Rightarrow> registry" where
  "hide_rooms c rs = map (\<lambda>(code, r). (code, hide_room c r)) rs"

definition hide :: "string \<Rightarrow> state \<Rightarrow> state" where
  "hide c s = s\<lparr>rooms := hide_rooms c (rooms s)\<rparr>"

text \<open>
  Two events that differ at most in the roles dealt: the same event on the same engine,
  or two \<^verbatim>\<open>start_assign_roles\<close> for the same room with role arrays of the same length,
  whatever the roles and the draws.
\<close>

definition deal_of :: "event \<Rightarrow> (jsval \<times> nat) option" where
  "deal_of ev =
     (case ev of
        Start_assign_roles payload \<Rightarrow>
          (case field payload ''selectedRoles'' of
             JArr roles \<Rightarrow> Some (field payload ''roomId'', length roles)
           | _ \<Rightarrow> None)
      | _ \<Rightarrow> None)"

definition alike :: "engine \<Rightarrow> event \<Rightarrow> engine \<Rightarrow> event \<Rightarrow> bool" where
  "alike eng1 ev1 eng2 ev2 =
     ((ev1 = ev2 \<and> eng1 = eng2) \<or> (deal_of ev1 \<noteq> None \<and> deal_of ev1 = deal_of ev2))"

subsection \<open>Exceptions and guards that fail\<close>

text \<open>\<^verbatim>\<open>rooms.get(roomId)\<close>: the keys of the map are strings, so only a string finds a room.\<close>

definition rooms_get :: "registry \<Rightarrow> jsval \<Rightarrow> room option" where
  "rooms_get rs roomId = (case roomId of JStr k \<Rightarrow> map_of rs k | _ \<Rightarrow> None)"


text \<open>
  The exception an event raises, if it raises one. \<^verbatim>\<open>TypeError\<close>: an argument that is
  \<^verbatim>\<open>undefined\<close> or \<^verbatim>\<open>null\<close> is destructured; \<^verbatim>\<open>join_room\<close> has a \<^verbatim>\<open>roomId\<close> that is not a
  string; the room's moderator sends \<^verbatim>\<open>start_assign_roles\<close> with \<^verbatim>\<open>selectedRoles\<close>
  \<^verbatim>\<open>undefined\<close> or \<^verbatim>\<open>null\<close>, or with an object that cannot be spread (it is not an array,
  a string or a \<^verbatim>\<open>Buffer\<close>) and whose \<^verbatim>\<open>length\<close> is the player count. \<^verbatim>\<open>RangeError\<close>:
  \<^verbatim>\<open>create_room\<close> draws a code that is taken as many times in a row as the stack holds
  calls.
\<close>

definition raises :: "engine \<Rightarrow> string \<Rightarrow> event \<Rightarrow> state \<Rightarrow> error option" where
  "raises eng sid ev s =
     (case ev of
        Create_room \<Rightarrow>
          (if \<forall>m \<in> set [0..<stack eng]. has (rooms s) (code_loop (random eng) (4 * m) 4 [])
           then Some RangeError else None)
      | Join_room payload \<Rightarrow>
          (if nullish payload then Some TypeError
           else case field payload ''roomId'' of JStr roomId \<Rightarrow> None | _ \<Rightarrow> Some TypeError)
      | Start_assign_roles payload \<Rightarrow>
          (if nullish payload then Some TypeError
           else case rooms_get (rooms s) (field payload ''roomId'') of
                  None \<Rightarrow> None
                | Some room \<Rightarrow>
                    if moderatorId room \<noteq> Some sid then None
                    else (case field payload ''selectedRoles'' of
                            JUndefined \<Rightarrow> Some TypeError
                          | JNull \<Rightarrow> Some TypeError
                          | JObj kvs \<Rightarrow>
                              if field (JObj kvs) ''length'' = JNum (of_nat (length (players room)))
                              then Some TypeError else None
                          | _ \<Rightarrow> None))
      | Reset_room payload \<Rightarrow> (if nullish payload then Some TypeError else None)
      | Kick_player payload \<Rightarrow> (if nullish payload then Some TypeError else None)
      | Disconnect \<Rightarrow> None)"


subsection \<open>The disconnect sweep as the specification words it\<close>

text \<open>
  The specification's wording of the loop body of \<^verbatim>\<open>cleanupUser\<close>, to be compared with
  \<^const>\<open>cleanup_entry\<close>: \<^emph>\<open>if\<close> the connection was the room's moderator, the moderator is
  cleared and the group is told; \<^emph>\<open>else\<close> the connection is removed from the players if it
  is there, and the group is told the new count and the moderator the new list; then the
  room is swept if it is empty and without moderator.
\<close>

definition spec_cleanup_entry :: "string \<Rightarrow> string \<Rightarrow> room \<Rightarrow> room option \<times> emission list" where
  "spec_cleanup_entry socketId roomId room =
     (let (room', em) =
            (if moderatorId room = Some socketId
             then (room\<lparr>moderatorId := None\<rparr>, [(To_group roomId, Mod_status_update False)])
             else if socketId \<in> pid ` set (players room)
             then (let ps = filter (\<lambda>p. pid p \<noteq> socketId) (players room)
                   in (room\<lparr>players := ps\<rparr>,
                       (To_group roomId, Player_count_update (length ps))
                       # (case moderatorId room of
                            None \<Rightarrow> []
                          | Some m \<Rightarrow> [(To_group m, Player_list_update ps)])))
             else (room, []))
      in (if players room' = [] \<and> moderatorId room' = None then None else Some room', em))"

fun spec_cleanupUser :: "string \<Rightarrow> registry \<Rightarrow> registry \<times> emission list" where
  "spec_cleanupUser socketId [] = ([], [])"
| "spec_cleanupUser socketId ((roomId, room) # rest) =
     (let (kept, em) = spec_cleanup_entry socketId roomId room;
          (rest', em') = spec_cleanupUser socketId rest
      in ((case kept of None \<Rightarrow> rest' | Some room' \<Rightarrow> (roomId, room') # rest'), em @ em'))"

section \<open>Engines and payloads of the example runs\<close>

definition counting :: engine where
  "counting = \<lparr>random = (\<lambda>k. k), stack = 10000, toUpperCase = ascii_toUpperCase,
                 trim = ascii_trim, to_string = (\<lambda>v. ''?'')\<rparr>"

definition zeros :: engine where
  "zeros = \<lparr>random = (\<lambda>k. 0), stack = 10000, toUpperCase = ascii_toUpperCase,
                 trim = ascii_trim, to_string = (\<lambda>v. ''?'')\<rparr>"

definition join_as :: "string \<Rightarrow> string \<Rightarrow> jsval" where
  "join_as roomId nm = JObj [(''roomId'', JStr roomId), (''name'', JStr nm)]"

definition deal :: "string \<Rightarrow> string list \<Rightarrow> jsval" where
  "deal roomId roles = JObj [(''roomId'', JStr roomId), (''selectedRoles'', JArr (map JStr roles))]"

definition kick :: "string \<Rightarrow> string \<Rightarrow> jsval" where
  "kick roomId playerId = JObj [(''roomId'', JStr roomId), (''playerId'', JStr playerId)]"

section \<open>Properties\<close>

subsection \<open>Room codes\<close>

lemma chars_length: "length chars = 32"
  by (simp add: chars_def)

lemma chars_distinct: "distinct chars"
  by (simp add: chars_def)

lemma chars_set:
  "set chars = set (''ABCDEFGHIJKLMNOPQRSTUVWXYZ'' @ ''0123456789'') - set ''IO01''"
  by (auto simp: chars_def)

lemma code_loop_length: "length (code_loop rnd k n code) = length code + n"
  by (induction n arbitrary: k code) (simp_all add: charAt_def random_below_def chars_length)

lemma code_loop_set: "set (code_loop rnd k n code) \<subseteq> set code \<union> set chars"
proof (induction n arbitrary: k code)
  case 0
  show ?case by simp
next
  case (Suc n)
  have "rnd k mod length chars < length chars"
    by (simp add: chars_length)
  then have "set (charAt chars (random_below rnd k (length chars))) \<subseteq> set chars"
    by (simp add: charAt_def random_below_def)
  with Suc.IH[of "Suc k" "code @ charAt chars (random_below rnd k (length chars))"]
  show ?case by auto
qed

lemma code_loop_4:
  "code_loop rnd k 4 code =
     code @ charAt chars (random_below rnd k (length chars))
          @ charAt chars (random_below rnd (Suc k) (length chars))
          @ charAt chars (random_below rnd (Suc (Suc k)) (length chars))
          @ charAt chars (random_below rnd (Suc (Suc (Suc k))) (length chars))"
proof -
  have "(4::nat) = Suc (Suc (Suc (Suc 0)))"
    by simp
  then show ?thesis
    by (simp only: code_loop.simps append_assoc)
qed

lemma generateRoomCode_Some:
  assumes "generateRoomCode rs rnd k = Some code"
  shows "length code = 4 \<and> set code \<subseteq> set chars \<and> \<not> has rs code"
proof (rule generateRoomCode.raw_induct
    [where P = "\<lambda>rs rnd k code. length code = 4 \<and> set code \<subseteq> set chars \<and> \<not> has rs code",
      OF _ assms])
  fix gen rs' rnd' k' code'
  assume IH: "\<And>rs rnd k code. gen rs rnd k = Some code \<Longrightarrow>
                length code = 4 \<and> set code \<subseteq> set chars \<and> \<not> has rs code"
    and run: "(let code = code_loop rnd' k' 4 [] in
               if has rs' code then gen rs' rnd' (k' + 4) else Some code) = Some code'"
  show "length code' = 4 \<and> set code' \<subseteq> set chars \<and> \<not> has rs' code'"
  proof (cases "has rs' (code_loop rnd' k' 4 [])")
    case True
    with run have "gen rs' rnd' (k' + 4) = Some code'"
      by (simp add: Let_def)
    then show ?thesis by (rule IH)
  next
    case False
    with run have "code' = code_loop rnd' k' 4 []"
      by (simp add: Let_def)
    with False show ?thesis
      using code_loop_length[of rnd' k' 4 "[]"] code_loop_set[of rnd' k' 4 "[]"] by simp
  qed
qed

text \<open>The retry returns as soon as one attempt, the \<open>m\<close>-th after the current one, is free.\<close>

lemma generateRoomCode_returns:
  "\<not> has rs (code_loop rnd (k + 4 * m) 4 []) \<Longrightarrow> \<exists>code. generateRoomCode rs rnd k = Some code"
proof (induction m arbitrary: k)
  case 0
  then show ?case
    by (subst generateRoomCode.simps) (simp add: Let_def)
next
  case (Suc m)
  from Suc.prems have "\<not> has rs (code_loop rnd ((k + 4) + 4 * m) 4 [])"
    by (simp add: add.assoc)
  then obtain code where "generateRoomCode rs rnd (k + 4) = Some code"
    using Suc.IH by blast
  then show ?case
    by (subst generateRoomCode.simps) (simp add: Let_def)
qed

text \<open>On a stack of \<open>d\<close> calls the function returns what it returns without bound,
  or throws when the first \<open>d\<close> attempts all collide.\<close>

lemma generateRoomCode_on_Inr:
  "generateRoomCode_on d rs rnd k = Inr code \<Longrightarrow> generateRoomCode rs rnd k = Some code"
proof (induction d arbitrary: k)
  case 0
  then show ?case by simp
next
  case (Suc d)
  show ?case
  proof (cases "has rs (code_loop rnd k 4 [])")
    case True
    with Suc.prems have "generateRoomCode_on d rs rnd (k + 4) = Inr code"
      by (simp add: Let_def)
    from Suc.IH[OF this] True show ?thesis
      by (subst generateRoomCode.simps) (simp add: Let_def)
  next
    case False
    with Suc.prems have "code = code_loop rnd k 4 []"
      by (simp add: Let_def)
    with False show ?thesis
      by (subst generateRoomCode.simps) (simp add: Let_def)
  qed
qed

lemma generateRoomCode_on_Inl:
  "generateRoomCode_on d rs rnd k = Inl e \<longleftrightarrow>
     e = RangeError \<and> (\<forall>m < d. has rs (code_loop rnd (k + 4 * m) 4 []))"
proof (induction d arbitrary: k)
  case 0
  show ?case by auto
next
  case (Suc d)
  have "(\<forall>m < Suc d. has rs (code_loop rnd (k + 4 * m) 4 [])) \<longleftrightarrow>
        has rs (code_loop rnd k 4 []) \<and> (\<forall>m < d. has rs (code_loop rnd ((k + 4) + 4 * m) 4 []))"
  proof
    assume all: "\<forall>m < Suc d. has rs (code_loop rnd (k + 4 * m) 4 [])"
    from all[rule_format, of 0] have "has rs (code_loop rnd k 4 [])"
      by simp
    moreover have "has rs (code_loop rnd ((k + 4) + 4 * m) 4 [])" if "m < d" for m
      using all[rule_format, of "Suc m"] that by (simp add: add.assoc)
    ultimately show "has rs (code_loop rnd k 4 [])
        \<and> (\<forall>m < d. has rs (code_loop rnd ((k + 4) + 4 * m) 4 []))"
      by blast
  next
    assume h: "has rs (code_loop rnd k 4 [])
        \<and> (\<forall>m < d. has rs (code_loop rnd ((k + 4) + 4 * m) 4 []))"
    show "\<forall>m < Suc d. has rs (code_loop rnd (k + 4 * m) 4 [])"
    proof (intro allI impI)
      fix m assume "m < Suc d"
      show "has rs (code_loop rnd (k + 4 * m) 4 [])"
      proof (cases m)
        case 0
        with h show ?thesis by simp
      next
        case (Suc n)
        with \<open>m < Suc d\<close> h have "has rs (code_loop rnd ((k + 4) + 4 * n) 4 [])"
          by simp
        with Suc show ?thesis by (simp add: add.assoc)
      qed
    qed
  qed
  with Suc.IH[of "k + 4"] show ?case
    by (simp add: Let_def)
qed

lemma generateRoomCode_on_pos:
  "0 < d \<Longrightarrow> generateRoomCode_on d rs rnd k =
     (if has rs (code_loop rnd k 4 []) then generateRoomCode_on (d - 1) rs rnd (k + 4)
      else Inr (code_loop rnd k 4 []))"
  by (cases d) (simp_all add: Let_def)

lemma has_iff_key: "has rs code \<longleftrightarrow> code \<in> fst ` set rs"
  by (simp add: has_def map_of_eq_None_iff)

text \<open>
  Claim C2, as the code has it: every code that \<^verbatim>\<open>generateRoomCode\<close> returns has exactly
  4 symbols, each of the alphabet \<^const>\<open>chars\<close>, and is the key of no room of the
  registry. The alphabet is the upper-case letters and the digits without I, O, 0 and 1;
  it has 32 symbols, all different.
\<close>

theorem generateRoomCode_fresh_code:
  "generateRoomCode rs rnd k = Some code \<Longrightarrow>
     length code = 4 \<and> set code \<subseteq> set chars \<and> code \<notin> fst ` set rs
     \<and> set chars = set (''ABCDEFGHIJKLMNOPQRSTUVWXYZ'' @ ''0123456789'') - set ''IO01''
     \<and> distinct chars \<and> length chars = 32"
  using generateRoomCode_Some[of rs rnd k code] chars_set chars_distinct chars_length
  by (simp add: has_iff_key)

text \<open>
  A run of C2: the first attempt draws ABCD, which is taken, the second draws EFGH.
\<close>

theorem generateRoomCode_fresh_code_witness:
  "generateRoomCode [(''ABCD'', \<lparr>moderatorId = Some ''m'', players = [], status = Waiting\<rparr>)]
       (\<lambda>k. k) 0 = Some ''EFGH''
   \<and> length ''EFGH'' = 4 \<and> set ''EFGH'' \<subseteq> set chars
   \<and> ''EFGH'' \<notin> fst ` set [(''ABCD'', \<lparr>moderatorId = Some ''m'', players = [], status = Waiting\<rparr>)]"
proof -
  have run: "generateRoomCode
               [(''ABCD'', \<lparr>moderatorId = Some ''m'', players = [], status = Waiting\<rparr>)]
               (\<lambda>k. k) 0 = Some ''EFGH''"
    by (subst generateRoomCode.simps, subst generateRoomCode.simps)
       (simp add: code_loop_4 has_def random_below_def chars_def charAt_def)
  from generateRoomCode_fresh_code[OF run] run show ?thesis
    by simp
qed

text \<open>
  Claim C2 as it is written, with its alphabet of 33 symbols, fails at the empty registry:
  the code ABCD is returned, and the alphabet it is drawn from has 32 symbols.
\<close>

theorem generateRoomCode_alphabet_33_counterexample:
  "\<not> (generateRoomCode [] (\<lambda>k. k) 0 = Some ''ABCD'' \<longrightarrow>
        length ''ABCD'' = 4 \<and> set ''ABCD'' \<subseteq> set chars \<and> card (set chars) = 33
        \<and> ''ABCD'' \<notin> fst ` set ([] :: registry))"
proof -
  have "generateRoomCode [] (\<lambda>k. k) 0 = Some ''ABCD''"
    by (subst generateRoomCode.simps)
       (simp add: code_loop_4 has_def random_below_def chars_def charAt_def)
  moreover have "card (set chars) = 32"
    using distinct_card[OF chars_distinct] by (simp add: chars_length)
  ultimately show ?thesis by simp
qed

subsection \<open>Role distribution\<close>

lemma field_JStr_not_nullish: "field v k = JStr x \<Longrightarrow> \<not> nullish v"
  by (auto simp: field_def nullish_def)

lemma shuffle_loop_length: "length (shuffle_loop rnd k n xs) = length xs"
  by (induction n arbitrary: k xs) (simp_all add: Let_def)

lemma random_below_less: "0 < n \<Longrightarrow> random_below rnd k n < n"
  by (simp add: random_below_def)

lemma shuffle_loop_mset: "n < length xs \<Longrightarrow> mset (shuffle_loop rnd k n xs) = mset xs"
proof (induction n arbitrary: k xs)
  case 0
  show ?case by simp
next
  case (Suc n)
  let ?j = "random_below rnd k (Suc n + 1)"
  have "?j < Suc n + 1"
    by (rule random_below_less) simp
  with Suc.prems have j: "?j < length xs"
    by simp
  have "mset (xs[Suc n := xs ! ?j, ?j := xs ! Suc n]) = mset xs"
    using Suc.prems j by (simp add: mset_swap)
  moreover have "n < length (xs[Suc n := xs ! ?j, ?j := xs ! Suc n])"
    using Suc.prems by simp
  ultimately show ?case
    using Suc.IH[of "xs[Suc n := xs ! ?j, ?j := xs ! Suc n]" "Suc k"] by (simp add: Let_def)
qed

lemma fisher_yates_mset: "mset (fisher_yates rnd xs) = mset xs"
proof (cases xs)
  case Nil
  then show ?thesis by (simp add: fisher_yates_def)
next
  case (Cons x ys)
  then show ?thesis by (simp add: fisher_yates_def shuffle_loop_mset)
qed

lemma fisher_yates_length: "length (fisher_yates rnd xs) = length xs"
  by (simp add: fisher_yates_def shuffle_loop_length)

lemma assign_each_zip:
  "length ps = length rs \<Longrightarrow>
   assign_each ps rs = (map (\<lambda>(p, r). p\<lparr>role := r\<rparr>) (zip ps rs),
                        map (\<lambda>(p, r). (To_group (pid p), Receive_role r)) (zip ps rs))"
  by (induction ps rs rule: list_induct2) simp_all

lemma assign_each_pid: "map pid (fst (assign_each ps rs)) = map pid ps"
  by (induction ps rs rule: assign_each.induct) (auto split: prod.splits)

lemma assign_each_name: "map name (fst (assign_each ps rs)) = map name ps"
  by (induction ps rs rule: assign_each.induct) (auto split: prod.splits)

lemma assign_each_role:
  "length ps = length rs \<Longrightarrow> map role (fst (assign_each ps rs)) = rs"
  by (induction ps rs rule: list_induct2) (auto split: prod.splits)

text \<open>The handler past its guards, for any argument that spreads to the list \<open>roles\<close>.\<close>

lemma on_start_assign_roles_dealt:
  assumes "field payload ''roomId'' = JStr roomId"
    and "map_of (rooms s) roomId = Some room"
    and "moderatorId room = Some sid"
    and "js_length (field payload ''selectedRoles'') = Some (JNum (of_nat (length (players room))))"
    and "spread (field payload ''selectedRoles'') = Some roles"
  shows "on_start_assign_roles eng sid payload s =
         Returns
           (s\<lparr>rooms := AList.update roomId
                (room\<lparr>players := fst (assign_each (players room) (fisher_yates (random eng) roles)),
                      status := Assigned\<rparr>) (rooms s)\<rparr>)
           (snd (assign_each (players room) (fisher_yates (random eng) roles))
            @ [(To_socket sid, Role_summary (buildRoleSummary
                  (fst (assign_each (players room) (fisher_yates (random eng) roles))))),
               (To_socket sid, Status_msg msg_assigned)])"
  using assms field_JStr_not_nullish[OF assms(1)]
  by (simp add: on_start_assign_roles_def Let_def split: prod.splits)

lemma on_start_assign_roles_success:
  assumes "field payload ''roomId'' = JStr roomId"
    and "field payload ''selectedRoles'' = JArr roles"
    and "map_of (rooms s) roomId = Some room"
    and "moderatorId room = Some sid"
    and "length roles = length (players room)"
  shows "on_start_assign_roles eng sid payload s =
         Returns
           (s\<lparr>rooms := AList.update roomId
                (room\<lparr>players := fst (assign_each (players room) (fisher_yates (random eng) roles)),
                      status := Assigned\<rparr>) (rooms s)\<rparr>)
           (snd (assign_each (players room) (fisher_yates (random eng) roles))
            @ [(To_socket sid, Role_summary (buildRoleSummary
                  (fst (assign_each (players room) (fisher_yates (random eng) roles))))),
               (To_socket sid, Status_msg msg_assigned)])"
  using on_start_assign_roles_dealt[OF assms(1,3,4), of roles eng] assms(2,5)
  by (simp add: js_length_def spread_def)

text \<open>
  Claim C1: when the moderator of a room with N players sends \<^verbatim>\<open>start_assign_roles\<close> with
  an array of N roles, the handler returns; afterwards the room has the same players in
  the same order, the player at index \<open>i\<close> holds the \<open>i\<close>-th role of the shuffled list, the
  roles held are, as a multiset, the roles supplied, and the status is \<^verbatim>\<open>assigned\<close>. This
  holds for every outcome of the random draws.
\<close>

theorem start_assign_roles_bijection:
  assumes "field payload ''roomId'' = JStr roomId"
    and "field payload ''selectedRoles'' = JArr roles"
    and "map_of (rooms s) roomId = Some room"
    and "moderatorId room = Some sid"
    and "length roles = length (players room)"
  shows "\<exists>s' em room'.
           handle eng sid (Start_assign_roles payload) s = Returns s' em
         \<and> map_of (rooms s') roomId = Some room'
         \<and> status room' = Assigned
         \<and> map pid (players room') = map pid (players room)
         \<and> map name (players room') = map name (players room)
         \<and> (\<forall>i < length (players room).
               role (players room' ! i) = fisher_yates (random eng) roles ! i)
         \<and> mset (map role (players room')) = mset roles"
proof -
  let ?shuffled = "fisher_yates (random eng) roles"
  let ?ps = "fst (assign_each (players room) ?shuffled)"
  let ?room = "room\<lparr>players := ?ps, status := Assigned\<rparr>"
  have len: "length (players room) = length ?shuffled"
    using assms(5) by (simp add: fisher_yates_length)
  have roles: "map role ?ps = ?shuffled"
    using len by (rule assign_each_role)
  have at: "\<forall>i < length (players room). role (?ps ! i) = ?shuffled ! i"
  proof (intro allI impI)
    fix i assume i: "i < length (players room)"
    have "length ?ps = length (players room)"
      using assign_each_pid[of "players room" ?shuffled] by (metis length_map)
    with i have "role (?ps ! i) = map role ?ps ! i"
      by simp
    then show "role (?ps ! i) = ?shuffled ! i"
      by (simp add: roles)
  qed
  have ms: "mset (map role ?ps) = mset roles"
    by (simp add: roles fisher_yates_mset)
  have "map_of (rooms (s\<lparr>rooms := AList.update roomId ?room (rooms s)\<rparr>)) roomId = Some ?room"
    by (simp add: update_conv')
  with on_start_assign_roles_success[OF assms, of eng] at ms show ?thesis
    by (simp add: assign_each_pid assign_each_name)
qed

text \<open>
  A run of C1: two players, the roles Wolf and Villager, and draws that swap them.
\<close>

theorem start_assign_roles_bijection_witness:
  "handle zeros ''m'' (Start_assign_roles (deal ''ABCD'' [''Wolf'', ''Villager'']))
     \<lparr>rooms = [(''ABCD'', \<lparr>moderatorId = Some ''m'',
                players = [\<lparr>pid = ''a'', name = JStr ''Ana'', role = JNull\<rparr>,
                           \<lparr>pid = ''b'', name = JStr ''Player_b'', role = JNull\<rparr>],
                status = Waiting\<rparr>)],
       sockets = [''m'', ''a'', ''b''],
       groups = [(''ABCD'', ''m''), (''ABCD'', ''a''), (''ABCD'', ''b'')]\<rparr>
   = Returns
     \<lparr>rooms = [(''ABCD'', \<lparr>moderatorId = Some ''m'',
                players = [\<lparr>pid = ''a'', name = JStr ''Ana'', role = JStr ''Villager''\<rparr>,
                           \<lparr>pid = ''b'', name = JStr ''Player_b'', role = JStr ''Wolf''\<rparr>],
                status = Assigned\<rparr>)],
       sockets = [''m'', ''a'', ''b''],
       groups = [(''ABCD'', ''m''), (''ABCD'', ''a''), (''ABCD'', ''b'')]\<rparr>
     [(To_group ''a'', Receive_role (JStr ''Villager'')),
      (To_group ''b'', Receive_role (JStr ''Wolf'')),
      (To_socket ''m'', Role_summary [(JStr ''Ana'', JStr ''Villager''),
                                      (JStr ''Player_b'', JStr ''Wolf'')]),
      (To_socket ''m'', Status_msg msg_assigned)]
   \<and> mset [JStr ''Villager'', JStr ''Wolf''] = mset [JStr ''Wolf'', JStr ''Villager'']"
proof -
  let ?room = "\<lparr>moderatorId = Some ''m'',
                players = [\<lparr>pid = ''a'', name = JStr ''Ana'', role = JNull\<rparr>,
                           \<lparr>pid = ''b'', name = JStr ''Player_b'', role = JNull\<rparr>],
                status = Waiting\<rparr>"
  let ?s = "\<lparr>rooms = [(''ABCD'', ?room)], sockets = [''m'', ''a'', ''b''],
             groups = [(''ABCD'', ''m''), (''ABCD'', ''a''), (''ABCD'', ''b'')]\<rparr>"
  let ?payload = "deal ''ABCD'' [''Wolf'', ''Villager'']"
  have h1: "field ?payload ''roomId'' = JStr ''ABCD''"
    by (simp add: deal_def field_def)
  have h2: "field ?payload ''selectedRoles'' = JArr [JStr ''Wolf'', JStr ''Villager'']"
    by (simp add: deal_def field_def)
  have h3: "map_of (rooms ?s) ''ABCD'' = Some ?room" by simp
  have h4: "moderatorId ?room = Some ''m''" by simp
  have h5: "length [JStr ''Wolf'', JStr ''Villager''] = length (players ?room)" by simp
  have fy: "fisher_yates (random zeros) [JStr ''Wolf'', JStr ''Villager'']
            = [JStr ''Villager'', JStr ''Wolf'']"
    by (simp add: fisher_yates_def random_below_def zeros_def Let_def)
  have run: "handle zeros ''m'' (Start_assign_roles ?payload) ?s
        = Returns
     \<lparr>rooms = [(''ABCD'', \<lparr>moderatorId = Some ''m'',
                players = [\<lparr>pid = ''a'', name = JStr ''Ana'', role = JStr ''Villager''\<rparr>,
                           \<lparr>pid = ''b'', name = JStr ''Player_b'', role = JStr ''Wolf''\<rparr>],
                status = Assigned\<rparr>)],
       sockets = [''m'', ''a'', ''b''],
       groups = [(''ABCD'', ''m''), (''ABCD'', ''a''), (''ABCD'', ''b'')]\<rparr>
     [(To_group ''a'', Receive_role (JStr ''Villager'')),
      (To_group ''b'', Receive_role (JStr ''Wolf'')),
      (To_socket ''m'', Role_summary [(JStr ''Ana'', JStr ''Villager''),
                                      (JStr ''Player_b'', JStr ''Wolf'')]),
      (To_socket ''m'', Status_msg msg_assigned)]"
    using on_start_assign_roles_success[OF h1 h2 h3 h4 h5, of zeros]
    by (simp add: fy buildRoleSummary_def)
  show ?thesis
    using run start_assign_roles_bijection[OF h1 h2 h3 h4 h5, of zeros] by simp
qed

subsection \<open>Guards\<close>

text \<open>
  Claim C3: when the room's moderator sends \<^verbatim>\<open>start_assign_roles\<close> with an array of K roles
  and the room has N players, K different from N, the handler returns the state it was
  given, the whole registry included, and emits one message: an \<^verbatim>\<open>error_msg\<close> to the
  moderator's own connection whose text holds the decimal numerals of K and of N.
\<close>

theorem start_assign_roles_mismatch:
  assumes "field payload ''roomId'' = JStr roomId"
    and "field payload ''selectedRoles'' = JArr roles"
    and "map_of (rooms s) roomId = Some room"
    and "moderatorId room = Some sid"
    and "length roles \<noteq> length (players room)"
  shows "handle eng sid (Start_assign_roles payload) s
           = Returns s [(To_socket sid,
                         Error_msg (msg_mismatch (length roles) (length (players room))))]
         \<and> (\<exists>pre mid. msg_mismatch (length roles) (length (players room))
                = pre @ show_nat (length roles) @ mid @ show_nat (length (players room)))"
proof -
  have "msg_mismatch (length roles) (length (players room))
          = (''Kh'' @ [CHR 0xC3, CHR 0xB4] @ ''ng kh'' @ [CHR 0xE1, CHR 0xBB, CHR 0x9B]
             @ ''p! Roles: '') @ show_nat (length roles) @ '', Players: ''
            @ show_nat (length (players room))"
    by (simp add: msg_mismatch_def msg_mismatch_text_def)
  then have "\<exists>pre mid. msg_mismatch (length roles) (length (players room))
                = pre @ show_nat (length roles) @ mid @ show_nat (length (players room))"
    by blast
  then show ?thesis
    using assms field_JStr_not_nullish[OF assms(1)]
    by (simp add: on_start_assign_roles_def js_length_def length_text_def msg_mismatch_def)
qed

text \<open>A run of C3: three roles for two players.\<close>

theorem start_assign_roles_mismatch_witness:
  "handle zeros ''m'' (Start_assign_roles (deal ''ABCD'' [''Wolf'', ''Seer'', ''Villager'']))
     \<lparr>rooms = [(''ABCD'', \<lparr>moderatorId = Some ''m'',
                players = [\<lparr>pid = ''a'', name = JStr ''Ana'', role = JNull\<rparr>,
                           \<lparr>pid = ''b'', name = JStr ''Player_b'', role = JNull\<rparr>],
                status = Waiting\<rparr>)],
       sockets = [''m'', ''a'', ''b''],
       groups = [(''ABCD'', ''m''), (''ABCD'', ''a''), (''ABCD'', ''b'')]\<rparr>
   = Returns
     \<lparr>rooms = [(''ABCD'', \<lparr>moderatorId = Some ''m'',
                players = [\<lparr>pid = ''a'', name = JStr ''Ana'', role = JNull\<rparr>,
                           \<lparr>pid = ''b'', name = JStr ''Player_b'', role = JNull\<rparr>],
                status = Waiting\<rparr>)],
       sockets = [''m'', ''a'', ''b''],
       groups = [(''ABCD'', ''m''), (''ABCD'', ''a''), (''ABCD'', ''b'')]\<rparr>
     [(To_socket ''m'',
       Error_msg (''Kh'' @ [CHR 0xC3, CHR 0xB4] @ ''ng kh'' @ [CHR 0xE1, CHR 0xBB, CHR 0x9B]
                  @ ''p! Roles: 3, Players: 2''))]"
proof -
  let ?room = "\<lparr>moderatorId = Some ''m'',
                players = [\<lparr>pid = ''a'', name = JStr ''Ana'', role = JNull\<rparr>,
                           \<lparr>pid = ''b'', name = JStr ''Player_b'', role = JNull\<rparr>],
                status = Waiting\<rparr>"
  let ?s = "\<lparr>rooms = [(''ABCD'', ?room)], sockets = [''m'', ''a'', ''b''],
             groups = [(''ABCD'', ''m''), (''ABCD'', ''a''), (''ABCD'', ''b'')]\<rparr>"
  let ?payload = "deal ''ABCD'' [''Wolf'', ''Seer'', ''Villager'']"
  have h1: "field ?payload ''roomId'' = JStr ''ABCD''"
    by (simp add: deal_def field_def)
  have h2: "field ?payload ''selectedRoles'' = JArr [JStr ''Wolf'', JStr ''Seer'', JStr ''Villager'']"
    by (simp add: deal_def field_def)
  have h3: "map_of (rooms ?s) ''ABCD'' = Some ?room" by simp
  have h4: "moderatorId ?room = Some ''m''" by simp
  have h5: "length [JStr ''Wolf'', JStr ''Seer'', JStr ''Villager''] \<noteq> length (players ?room)"
    by simp
  have "show_nat 3 = ''3''" and "show_nat 2 = ''2''"
    by (simp_all add: show_nat.simps charAt_def)
  then have shown: "msg_mismatch (Suc (Suc (Suc 0))) (Suc (Suc 0))
          = ''Kh'' @ [CHR 0xC3, CHR 0xB4] @ ''ng kh'' @ [CHR 0xE1, CHR 0xBB, CHR 0x9B]
            @ ''p! Roles: 3, Players: 2''"
    by (simp add: msg_mismatch_def msg_mismatch_text_def numeral_3_eq_3 numeral_2_eq_2)
  show ?thesis
    using start_assign_roles_mismatch[OF h1 h2 h3 h4 h5, of zeros] shown by simp
qed

text \<open>
  Claim C8: \<^verbatim>\<open>start_assign_roles\<close>, \<^verbatim>\<open>reset_room\<close> and \<^verbatim>\<open>kick_player\<close> sent for a room by a
  connection that is not its moderator return the state unchanged and emit nothing,
  whatever the other fields of the argument are.
\<close>

theorem non_moderator_action_ignored:
  assumes "field payload ''roomId'' = JStr roomId"
    and "map_of (rooms s) roomId = Some room"
    and "moderatorId room \<noteq> Some sid"
  shows "handle eng sid (Start_assign_roles payload) s = Returns s []
       \<and> handle eng sid (Reset_room payload) s = Returns s []
       \<and> handle eng sid (Kick_player payload) s = Returns s []"
  using assms field_JStr_not_nullish[OF assms(1)]
  by (auto simp: on_start_assign_roles_def on_reset_room_def on_kick_player_def)

text \<open>A run of C8: the player \<open>a\<close> tries to kick the player \<open>b\<close>.\<close>

theorem non_moderator_action_ignored_witness:
  "handle zeros ''a'' (Kick_player (kick ''ABCD'' ''b''))
     \<lparr>rooms = [(''ABCD'', \<lparr>moderatorId = Some ''m'',
                players = [\<lparr>pid = ''a'', name = JStr ''Ana'', role = JNull\<rparr>,
                           \<lparr>pid = ''b'', name = JStr ''Player_b'', role = JNull\<rparr>],
                status = Waiting\<rparr>)],
       sockets = [''m'', ''a'', ''b''],
       groups = [(''ABCD'', ''m''), (''ABCD'', ''a''), (''ABCD'', ''b'')]\<rparr>
   = Returns
     \<lparr>rooms = [(''ABCD'', \<lparr>moderatorId = Some ''m'',
                players = [\<lparr>pid = ''a'', name = JStr ''Ana'', role = JNull\<rparr>,
                           \<lparr>pid = ''b'', name = JStr ''Player_b'', role = JNull\<rparr>],
                status = Waiting\<rparr>)],
       sockets = [''m'', ''a'', ''b''],
       groups = [(''ABCD'', ''m''), (''ABCD'', ''a''), (''ABCD'', ''b'')]\<rparr>
     []"
proof -
  let ?room = "\<lparr>moderatorId = Some ''m'',
                players = [\<lparr>pid = ''a'', name = JStr ''Ana'', role = JNull\<rparr>,
                           \<lparr>pid = ''b'', name = JStr ''Player_b'', role = JNull\<rparr>],
                status = Waiting\<rparr>"
  let ?s = "\<lparr>rooms = [(''ABCD'', ?room)], sockets = [''m'', ''a'', ''b''],
             groups = [(''ABCD'', ''m''), (''ABCD'', ''a''), (''ABCD'', ''b'')]\<rparr>"
  have h1: "field (kick ''ABCD'' ''b'') ''roomId'' = JStr ''ABCD''"
    by (simp add: kick_def field_def)
  have h2: "map_of (rooms ?s) ''ABCD'' = Some ?room" by simp
  have h3: "moderatorId ?room \<noteq> Some ''a''" by simp
  from non_moderator_action_ignored[OF h1 h2 h3, of zeros] show ?thesis
    by simp
qed

subsection \<open>Joining\<close>

lemma find_pid_None: "find (\<lambda>p. pid p = sid) ps = None \<longleftrightarrow> sid \<notin> pid ` set ps"
  by (auto simp: find_None_iff)

lemma on_join_room_present:
  assumes "field payload ''roomId'' = JStr roomId"
    and "map_of (rooms s) (trim eng (toUpperCase eng roomId)) = Some room"
    and "sid \<in> pid ` set (players room)"
  shows "on_join_room eng sid payload s =
         Returns
           (s\<lparr>groups := List.insert (trim eng (toUpperCase eng roomId), sid) (groups s)\<rparr>)
           ([(To_socket sid, Role_assigned Player (Some (trim eng (toUpperCase eng roomId)))),
             (To_group (trim eng (toUpperCase eng roomId)), Player_count_update (length (players room)))]
            @ (case moderatorId room of
                 None \<Rightarrow> []
               | Some m \<Rightarrow> if m \<noteq> [] then [(To_group m, Player_list_update (players room))]
                          else [])
            @ [(To_socket sid, Init_state (truthy (moderatorId room)) (length (players room)))])"
proof -
  have "find (\<lambda>p. pid p = sid) (players room) \<noteq> None"
    using assms(3) by (simp add: find_pid_None)
  moreover have "AList.update (trim eng (toUpperCase eng roomId)) room (rooms s) = rooms s"
    using assms(2) by (rule update_triv)
  ultimately show ?thesis
    using assms(1,2) field_JStr_not_nullish[OF assms(1)]
    by (simp add: on_join_room_def Let_def)
qed

text \<open>
  Claim C10: when a connection that is already among the players of a room sends
  \<^verbatim>\<open>join_room\<close> for it again, with any name or none, the registry is returned as it was
  (the player keeps its name and its role), and what is emitted is \<^verbatim>\<open>role_assigned\<close> to the
  caller, \<^verbatim>\<open>player_count_update\<close> to the room's group, \<^verbatim>\<open>player_list_update\<close> to the
  moderator when the room has one, and \<^verbatim>\<open>init_state\<close> to the caller. The only field of the
  state written is the transport's membership table, where the caller is entered again.
\<close>

theorem rejoin_keeps_player_record:
  assumes "field payload ''roomId'' = JStr roomId"
    and "map_of (rooms s) (trim eng (toUpperCase eng roomId)) = Some room"
    and "p \<in> set (players room)"
    and "pid p = sid"
  shows "\<exists>s'. handle eng sid (Join_room payload) s =
           Returns s'
             ([(To_socket sid, Role_assigned Player (Some (trim eng (toUpperCase eng roomId)))),
               (To_group (trim eng (toUpperCase eng roomId)),
                Player_count_update (length (players room)))]
              @ (case moderatorId room of
                   None \<Rightarrow> []
                 | Some m \<Rightarrow> if m \<noteq> [] then [(To_group m, Player_list_update (players room))]
                            else [])
              @ [(To_socket sid,
                  Init_state (truthy (moderatorId room)) (length (players room)))])
         \<and> rooms s' = rooms s
         \<and> sockets s' = sockets s
         \<and> set (groups s') = insert (trim eng (toUpperCase eng roomId), sid) (set (groups s))
         \<and> map_of (rooms s') (trim eng (toUpperCase eng roomId)) = Some room"
proof -
  have "sid \<in> pid ` set (players room)"
    using assms(3,4) by blast
  from on_join_room_present[OF assms(1,2) this] assms(2) show ?thesis
    by simp
qed

text \<open>
  A run of C10: Ana, who holds the role Wolf, joins again as \<open>'' abcd''\<close> under the name Bob.
\<close>

theorem rejoin_keeps_player_record_witness:
  "handle zeros ''a'' (Join_room (join_as '' abcd'' ''Bob''))
     \<lparr>rooms = [(''ABCD'', \<lparr>moderatorId = Some ''m'',
                players = [\<lparr>pid = ''a'', name = JStr ''Ana'', role = JStr ''Wolf''\<rparr>],
                status = Assigned\<rparr>)],
       sockets = [''m'', ''a''],
       groups = [(''ABCD'', ''m''), (''ABCD'', ''a'')]\<rparr>
   = Returns
     \<lparr>rooms = [(''ABCD'', \<lparr>moderatorId = Some ''m'',
                players = [\<lparr>pid = ''a'', name = JStr ''Ana'', role = JStr ''Wolf''\<rparr>],
                status = Assigned\<rparr>)],
       sockets = [''m'', ''a''],
       groups = [(''ABCD'', ''m''), (''ABCD'', ''a'')]\<rparr>
     [(To_socket ''a'', Role_assigned Player (Some ''ABCD'')),
      (To_group ''ABCD'', Player_count_update 1),
      (To_group ''m'', Player_list_update
         [\<lparr>pid = ''a'', name = JStr ''Ana'', role = JStr ''Wolf''\<rparr>]),
      (To_socket ''a'', Init_state True 1)]"
proof -
  let ?p = "\<lparr>pid = ''a'', name = JStr ''Ana'', role = JStr ''Wolf''\<rparr>"
  let ?room = "\<lparr>moderatorId = Some ''m'', players = [?p], status = Assigned\<rparr>"
  let ?s = "\<lparr>rooms = [(''ABCD'', ?room)], sockets = [''m'', ''a''],
             groups = [(''ABCD'', ''m''), (''ABCD'', ''a'')]\<rparr>"
  have code: "trim zeros (toUpperCase zeros '' abcd'') = ''ABCD''"
    by (simp add: zeros_def ascii_trim_def ascii_toUpperCase_def is_space_def)
  have h1: "field (join_as '' abcd'' ''Bob'') ''roomId'' = JStr '' abcd''"
    by (simp add: join_as_def field_def)
  have h2: "map_of (rooms ?s) (trim zeros (toUpperCase zeros '' abcd'')) = Some ?room"
    by (simp add: code)
  have h3: "?p \<in> set (players ?room)" by simp
  have h4: "pid ?p = ''a''" by simp
  have run: "on_join_room zeros ''a'' (join_as '' abcd'' ''Bob'') ?s
        = Returns ?s
     [(To_socket ''a'', Role_assigned Player (Some ''ABCD'')),
      (To_group ''ABCD'', Player_count_update 1),
      (To_group ''m'', Player_list_update [?p]),
      (To_socket ''a'', Init_state True 1)]"
    using on_join_room_present[OF h1 h2, of "''a''"]
    by (simp add: code truthy_def)
  show ?thesis
    using run rejoin_keeps_player_record[OF h1 h2 h3 h4] by simp
qed

subsection \<open>The disconnect sweep\<close>

lemma length_filter_eq_iff: "length (filter P xs) = length xs \<longleftrightarrow> (\<forall>x \<in> set xs. P x)"
proof (induction xs)
  case Nil
  show ?case by simp
next
  case (Cons x xs)
  have "length (filter P xs) \<noteq> Suc (length xs)"
    using length_filter_le[of P xs] by arith
  with Cons show ?case
    by simp
qed

lemma length_filter_pid:
  "length (filter (\<lambda>p. pid p \<noteq> sid) ps) \<noteq> length ps \<longleftrightarrow> sid \<in> pid ` set ps"
  by (auto simp: length_filter_eq_iff)

text \<open>The loop body in closed form.\<close>

lemma cleanup_entry_eq:
  "cleanup_entry sid roomId room =
     (let room' = room\<lparr>moderatorId := (if moderatorId room = Some sid then None
                                        else moderatorId room),
                        players := filter (\<lambda>p. pid p \<noteq> sid) (players room)\<rparr>
      in (if players room' = [] \<and> \<not> truthy (moderatorId room') then None else Some room',
          (if moderatorId room = Some sid then [(To_group roomId, Mod_status_update False)]
           else [])
          @ (if sid \<in> pid ` set (players room)
             then (To_group roomId, Player_count_update (length (players room')))
                  # (case moderatorId room' of
                       None \<Rightarrow> []
                     | Some m \<Rightarrow> if m \<noteq> [] then [(To_group m, Player_list_update (players room'))]
                                else [])
             else [])))"
  by (cases "moderatorId room = Some sid")
     (auto simp: cleanup_entry_def Let_def length_filter_pid split: option.splits)

lemma cleanupUser_Cons_fst:
  "fst (cleanupUser sid ((c, r) # rs)) =
     (case fst (cleanup_entry sid c r) of
        None \<Rightarrow> fst (cleanupUser sid rs)
      | Some r' \<Rightarrow> (c, r') # fst (cleanupUser sid rs))"
  by (cases "cleanup_entry sid c r"; cases "cleanupUser sid rs") (simp split: option.splits)

lemma cleanupUser_Cons_snd:
  "snd (cleanupUser sid ((c, r) # rs)) = snd (cleanup_entry sid c r) @ snd (cleanupUser sid rs)"
  by (cases "cleanup_entry sid c r"; cases "cleanupUser sid rs") simp

lemma cleanupUser_keys: "fst ` set (fst (cleanupUser sid rs)) \<subseteq> fst ` set rs"
proof (induction rs)
  case Nil
  show ?case by simp
next
  case (Cons e rs)
  obtain c r where e: "e = (c, r)"
    by (cases e)
  from Cons.IH show ?case
    unfolding e cleanupUser_Cons_fst by (auto split: option.splits)
qed

lemma cleanupUser_distinct:
  "distinct (map fst rs) \<Longrightarrow> distinct (map fst (fst (cleanupUser sid rs)))"
proof (induction rs)
  case Nil
  show ?case by simp
next
  case (Cons e rs)
  obtain c r where e: "e = (c, r)"
    by (cases e)
  from Cons.prems e have "c \<notin> fst ` set rs" and "distinct (map fst rs)"
    by simp_all
  with cleanupUser_keys[of sid rs] Cons.IH show ?case
    unfolding e cleanupUser_Cons_fst by (auto split: option.splits)
qed

lemma cleanupUser_map_of:
  assumes "distinct (map fst rs)"
  shows "map_of (fst (cleanupUser sid rs)) roomId =
           (case map_of rs roomId of
              None \<Rightarrow> None
            | Some room \<Rightarrow> fst (cleanup_entry sid roomId room))"
  using assms
proof (induction rs)
  case Nil
  show ?case by simp
next
  case (Cons e rs)
  obtain c r where e: "e = (c, r)"
    by (cases e)
  from Cons.prems e have fresh: "c \<notin> fst ` set rs" and d: "distinct (map fst rs)"
    by simp_all
  have none: "map_of (fst (cleanupUser sid rs)) c = None"
    using fresh cleanupUser_keys[of sid rs] by (auto simp: map_of_eq_None_iff)
  show ?case
  proof (cases "roomId = c")
    case True
    with none show ?thesis
      unfolding e cleanupUser_Cons_fst by (simp split: option.splits)
  next
    case False
    with Cons.IH[OF d] show ?thesis
      unfolding e cleanupUser_Cons_fst by (simp split: option.splits)
  qed
qed

lemma cleanupUser_emissions:
  assumes "map_of rs roomId = Some room"
  shows "\<exists>before after.
           snd (cleanupUser sid rs) = before @ snd (cleanup_entry sid roomId room) @ after"
  using assms
proof (induction rs)
  case Nil
  then show ?case by simp
next
  case (Cons e rs)
  obtain c r where e: "e = (c, r)"
    by (cases e)
  show ?case
  proof (cases "roomId = c")
    case True
    with Cons.prems e have "r = room"
      by simp
    with True have "snd (cleanupUser sid (e # rs))
        = [] @ snd (cleanup_entry sid roomId room) @ snd (cleanupUser sid rs)"
      unfolding e cleanupUser_Cons_snd by simp
    then show ?thesis by blast
  next
    case False
    with Cons.prems e have "map_of rs roomId = Some room"
      by simp
    from Cons.IH[OF this] obtain before after where
      "snd (cleanupUser sid rs) = before @ snd (cleanup_entry sid roomId room) @ after"
      by blast
    then have "snd (cleanupUser sid (e # rs))
        = (snd (cleanup_entry sid c r) @ before) @ snd (cleanup_entry sid roomId room) @ after"
      unfolding e cleanupUser_Cons_snd by simp
    then show ?thesis by blast
  qed
qed

lemma code_loop_example: "code_loop (\<lambda>k. k) 0 4 [] = ''ABCD''"
  by (simp add: code_loop_4 random_below_def chars_def charAt_def)

lemma create_room_example:
  "on_create_room counting sid \<lparr>rooms = [], sockets = cs, groups = []\<rparr> =
     Returns
       \<lparr>rooms = [(''ABCD'', \<lparr>moderatorId = Some sid, players = [], status = Waiting\<rparr>)],
         sockets = cs, groups = [(''ABCD'', sid)]\<rparr>
       [(To_socket sid, Room_created ''ABCD''),
        (To_socket sid, Role_assigned Moderator None),
        (To_socket sid, Player_list_update []),
        (To_socket sid, Init_state True 0)]"
proof -
  have "generateRoomCode_on (stack counting) [] (random counting) 0 = Inr ''ABCD''"
    by (simp add: counting_def generateRoomCode_on_pos code_loop_example has_def)
  then show ?thesis
    by (simp add: on_create_room_def getRoom_def Let_def)
qed

lemma normalise_example:
  "trim counting (toUpperCase counting ''abcd '') = ''ABCD''"
  "trim counting (toUpperCase counting ''ABCD'') = ''ABCD''"
  by (simp_all add: counting_def ascii_trim_def ascii_toUpperCase_def is_space_def)

lemma valid_socket_id_example:
  "valid_socket_id ''mod''" "valid_socket_id ''ana''" "valid_socket_id ''bob''"
  by (simp_all add: valid_socket_id_def is_room_code_def)

lemma exec_mod_joins:
  "exec [Connect ''mod'', Connect ''ana'',
         Inbound ''mod'' Create_room counting,
         Inbound ''mod'' (Join_room (join_as ''ABCD'' ''Mod'')) counting,
         Inbound ''ana'' (Join_room (join_as ''abcd '' ''Ana'')) counting]
     init
   = Some \<lparr>rooms = [(''ABCD'', \<lparr>moderatorId = Some ''mod'',
                       players = [\<lparr>pid = ''mod'', name = JStr ''Mod'', role = JNull\<rparr>,
                                  \<lparr>pid = ''ana'', name = JStr ''Ana'', role = JNull\<rparr>],
                       status = Waiting\<rparr>)],
           sockets = [''mod'', ''ana''],
           groups = [(''ABCD'', ''ana''), (''ABCD'', ''mod'')]\<rparr>"
  by (simp add: init_def connection_def valid_socket_id_example create_room_example
      on_join_room_def join_as_def field_def nullish_def normalise_example Let_def truthy_def)

text \<open>
  Claim C9, as the code has it. On \<^verbatim>\<open>disconnect\<close> of the connection \<open>sid\<close>, for every room
  of the registry: when \<open>sid\<close> was the room's moderator the moderator is cleared and the
  group is told; whether or not it was, \<open>sid\<close> is taken out of the players, and when it was
  among them the group is told the new count and the moderator that the room still has is
  sent the new list; the room is then dropped from the registry when it has no player and
  no moderator left. The messages of one room are emitted together, in this order.
\<close>

theorem disconnect_each_room:
  assumes "distinct (map fst (rooms s))"
    and "map_of (rooms s) roomId = Some room"
    and "room' = room\<lparr>moderatorId := (if moderatorId room = Some sid then None
                                         else moderatorId room),
                         players := filter (\<lambda>p. pid p \<noteq> sid) (players room)\<rparr>"
  shows "\<exists>s' em before after.
           handle eng sid Disconnect s = Returns s' em
         \<and> map_of (rooms s') roomId =
             (if players room' = [] \<and> \<not> truthy (moderatorId room') then None else Some room')
         \<and> em = before
                @ (if moderatorId room = Some sid
                   then [(To_group roomId, Mod_status_update False)] else [])
                @ (if sid \<in> pid ` set (players room)
                   then (To_group roomId, Player_count_update (length (players room')))
                        # (case moderatorId room' of
                             None \<Rightarrow> []
                           | Some m \<Rightarrow>
                               if m \<noteq> [] then [(To_group m, Player_list_update (players room'))]
                               else [])
                   else [])
                @ after"
proof -
  obtain rs' em where run: "cleanupUser sid (rooms s) = (rs', em)"
    by (cases "cleanupUser sid (rooms s)")
  have entry: "cleanup_entry sid roomId room =
      (if players room' = [] \<and> \<not> truthy (moderatorId room') then None else Some room',
       (if moderatorId room = Some sid then [(To_group roomId, Mod_status_update False)]
        else [])
       @ (if sid \<in> pid ` set (players room)
          then (To_group roomId, Player_count_update (length (players room')))
               # (case moderatorId room' of
                    None \<Rightarrow> []
                  | Some m \<Rightarrow> if m \<noteq> [] then [(To_group m, Player_list_update (players room'))]
                             else [])
          else []))"
    unfolding assms(3) cleanup_entry_eq Let_def ..
  let ?s' = "transport_drop sid s\<lparr>rooms := rs'\<rparr>"
  have "map_of rs' roomId = fst (cleanup_entry sid roomId room)"
    using cleanupUser_map_of[OF assms(1), of sid roomId] assms(2) run by simp
  then have kept: "map_of (rooms ?s') roomId =
      (if players room' = [] \<and> \<not> truthy (moderatorId room') then None else Some room')"
    unfolding entry by (simp add: transport_drop_def)
  obtain before after where
    "em = before @ snd (cleanup_entry sid roomId room) @ after"
    using cleanupUser_emissions[OF assms(2), of sid] run by auto
  then have sent: "em = before
                @ (if moderatorId room = Some sid
                   then [(To_group roomId, Mod_status_update False)] else [])
                @ (if sid \<in> pid ` set (players room)
                   then (To_group roomId, Player_count_update (length (players room')))
                        # (case moderatorId room' of
                             None \<Rightarrow> []
                           | Some m \<Rightarrow>
                               if m \<noteq> [] then [(To_group m, Player_list_update (players room'))]
                               else [])
                   else [])
                @ after"
    unfolding entry by simp
  have returns: "handle eng sid Disconnect s = Returns ?s' em"
    using run by (simp add: on_disconnect_def)
  show ?thesis
    by (intro exI[of _ ?s'] exI[of _ em] exI[of _ before] exI[of _ after] conjI
        returns kept sent)
qed

text \<open>
  A run of C9 in a reachable state: the moderator, who has joined the own room as a
  player too, disconnects; the moderator is cleared and the moderator's player entry goes.
\<close>

theorem disconnect_each_room_witness:
  "exec [Connect ''mod'', Connect ''ana'',
         Inbound ''mod'' Create_room counting,
         Inbound ''mod'' (Join_room (join_as ''ABCD'' ''Mod'')) counting,
         Inbound ''ana'' (Join_room (join_as ''abcd '' ''Ana'')) counting]
     init
   = Some \<lparr>rooms = [(''ABCD'', \<lparr>moderatorId = Some ''mod'',
                       players = [\<lparr>pid = ''mod'', name = JStr ''Mod'', role = JNull\<rparr>,
                                  \<lparr>pid = ''ana'', name = JStr ''Ana'', role = JNull\<rparr>],
                       status = Waiting\<rparr>)],
           sockets = [''mod'', ''ana''],
           groups = [(''ABCD'', ''ana''), (''ABCD'', ''mod'')]\<rparr>
   \<and> handle counting ''mod'' Disconnect
       \<lparr>rooms = [(''ABCD'', \<lparr>moderatorId = Some ''mod'',
                       players = [\<lparr>pid = ''mod'', name = JStr ''Mod'', role = JNull\<rparr>,
                                  \<lparr>pid = ''ana'', name = JStr ''Ana'', role = JNull\<rparr>],
                       status = Waiting\<rparr>)],
           sockets = [''mod'', ''ana''],
           groups = [(''ABCD'', ''ana''), (''ABCD'', ''mod'')]\<rparr>
     = Returns
         \<lparr>rooms = [(''ABCD'', \<lparr>moderatorId = None,
                       players = [\<lparr>pid = ''ana'', name = JStr ''Ana'', role = JNull\<rparr>],
                       status = Waiting\<rparr>)],
           sockets = [''ana''],
           groups = [(''ABCD'', ''ana'')]\<rparr>
         [(To_group ''ABCD'', Mod_status_update False),
          (To_group ''ABCD'', Player_count_update 1)]"
proof -
  let ?room = "\<lparr>moderatorId = Some ''mod'',
                 players = [\<lparr>pid = ''mod'', name = JStr ''Mod'', role = JNull\<rparr>,
                            \<lparr>pid = ''ana'', name = JStr ''Ana'', role = JNull\<rparr>],
                 status = Waiting\<rparr>"
  let ?s = "\<lparr>rooms = [(''ABCD'', ?room)], sockets = [''mod'', ''ana''],
             groups = [(''ABCD'', ''ana''), (''ABCD'', ''mod'')]\<rparr>"
  have h1: "distinct (map fst (rooms ?s))" by simp
  have h2: "map_of (rooms ?s) ''ABCD'' = Some ?room" by simp
  have run: "handle counting ''mod'' Disconnect ?s
     = Returns
         \<lparr>rooms = [(''ABCD'', \<lparr>moderatorId = None,
                       players = [\<lparr>pid = ''ana'', name = JStr ''Ana'', role = JNull\<rparr>],
                       status = Waiting\<rparr>)],
           sockets = [''ana''],
           groups = [(''ABCD'', ''ana'')]\<rparr>
         [(To_group ''ABCD'', Mod_status_update False),
          (To_group ''ABCD'', Player_count_update 1)]"
    by (simp add: on_disconnect_def cleanup_entry_def transport_drop_def truthy_def Let_def)
  show ?thesis
    using exec_mod_joins run disconnect_each_room[where sid = "''mod''" and eng = counting, OF h1 h2 refl]
    by simp
qed

text \<open>
  Claim C9 as it is written, with the removal from the players only when the connection
  was not the moderator, fails in that state: the specification's wording keeps the
  moderator's player entry and tells nobody a new count.
\<close>

theorem disconnect_else_counterexample:
  "cleanupUser ''mod''
     [(''ABCD'', \<lparr>moderatorId = Some ''mod'',
                  players = [\<lparr>pid = ''mod'', name = JStr ''Mod'', role = JNull\<rparr>,
                             \<lparr>pid = ''ana'', name = JStr ''Ana'', role = JNull\<rparr>],
                  status = Waiting\<rparr>)]
   = ([(''ABCD'', \<lparr>moderatorId = None,
                  players = [\<lparr>pid = ''ana'', name = JStr ''Ana'', role = JNull\<rparr>],
                  status = Waiting\<rparr>)],
      [(To_group ''ABCD'', Mod_status_update False),
       (To_group ''ABCD'', Player_count_update 1)])
   \<and> spec_cleanupUser ''mod''
     [(''ABCD'', \<lparr>moderatorId = Some ''mod'',
                  players = [\<lparr>pid = ''mod'', name = JStr ''Mod'', role = JNull\<rparr>,
                             \<lparr>pid = ''ana'', name = JStr ''Ana'', role = JNull\<rparr>],
                  status = Waiting\<rparr>)]
   = ([(''ABCD'', \<lparr>moderatorId = None,
                  players = [\<lparr>pid = ''mod'', name = JStr ''Mod'', role = JNull\<rparr>,
                             \<lparr>pid = ''ana'', name = JStr ''Ana'', role = JNull\<rparr>],
                  status = Waiting\<rparr>)],
      [(To_group ''ABCD'', Mod_status_update False)])
   \<and> cleanupUser ''mod''
     [(''ABCD'', \<lparr>moderatorId = Some ''mod'',
                  players = [\<lparr>pid = ''mod'', name = JStr ''Mod'', role = JNull\<rparr>,
                             \<lparr>pid = ''ana'', name = JStr ''Ana'', role = JNull\<rparr>],
                  status = Waiting\<rparr>)]
   \<noteq> spec_cleanupUser ''mod''
     [(''ABCD'', \<lparr>moderatorId = Some ''mod'',
                  players = [\<lparr>pid = ''mod'', name = JStr ''Mod'', role = JNull\<rparr>,
                             \<lparr>pid = ''ana'', name = JStr ''Ana'', role = JNull\<rparr>],
                  status = Waiting\<rparr>)]"
  by (simp add: cleanup_entry_def spec_cleanup_entry_def truthy_def Let_def)

subsection \<open>The invariants hold in every reachable state\<close>

lemma set_update_subset: "set (AList.update k v al) \<subseteq> insert (k, v) (set al)"
  by (induction al) auto

lemma registry_ok_update:
  assumes "registry_ok rs" and "is_room_code k" and "room_ok v"
  shows "registry_ok (AList.update k v rs)"
  using assms set_update_subset[of k v rs]
  by (auto simp: registry_ok_def distinct_update)

lemma registry_ok_lookup:
  assumes "registry_ok rs" and "map_of rs k = Some r"
  shows "is_room_code k \<and> room_ok r"
proof -
  from assms(2) have "(k, r) \<in> set rs"
    by (rule map_of_SomeD)
  with assms(1) show ?thesis
    unfolding registry_ok_def by blast
qed

lemma registry_ok_map_of: "registry_ok rs \<Longrightarrow> (c, r) \<in> set rs \<Longrightarrow> map_of rs c = Some r"
  unfolding registry_ok_def by (simp add: map_of_is_SomeI)

lemma room_ok_cleanup:
  assumes "room_ok r" and "fst (cleanup_entry sid c r) = Some r'"
  shows "room_ok r'"
proof -
  define m' where "m' = (if moderatorId r = Some sid then None else moderatorId r)"
  define ps' where "ps' = filter (\<lambda>p. pid p \<noteq> sid) (players r)"
  have "fst (cleanup_entry sid c r) =
          (if ps' = [] \<and> \<not> truthy m' then None else Some (r\<lparr>moderatorId := m', players := ps'\<rparr>))"
    by (simp add: cleanup_entry_eq Let_def m'_def ps'_def)
  with assms(2) have r': "r' = r\<lparr>moderatorId := m', players := ps'\<rparr>"
    and kept: "\<not> (ps' = [] \<and> \<not> truthy m')"
    by (simp_all split: if_splits)
  have 1: "\<not> (ps' = [] \<and> m' = None)"
    using kept by (cases m') (auto simp: truthy_def)
  have 2: "distinct (map pid ps')"
    using assms(1) by (simp add: room_ok_def ps'_def distinct_map_filter)
  have 3: "case m' of None \<Rightarrow> True | Some m \<Rightarrow> valid_socket_id m"
    using assms(1) by (simp add: room_ok_def m'_def)
  have 4: "\<forall>p \<in> set ps'. valid_socket_id (pid p)"
    using assms(1) by (simp add: room_ok_def ps'_def)
  show ?thesis
    unfolding r' using 1 2 3 4 by (simp add: room_ok_def)
qed

lemma registry_ok_cleanupUser:
  assumes "registry_ok rs"
  shows "registry_ok (fst (cleanupUser sid rs))"
proof -
  have "\<forall>(c, r') \<in> set (fst (cleanupUser sid rs)). is_room_code c \<and> room_ok r'"
    using assms
  proof (induction rs)
    case Nil
    show ?case by simp
  next
    case (Cons e rs)
    obtain c r where e: "e = (c, r)"
      by (cases e)
    from Cons.prems e have "is_room_code c" and "room_ok r" and "registry_ok rs"
      by (auto simp: registry_ok_def)
    with Cons.IH room_ok_cleanup[of r sid c] show ?case
      unfolding e cleanupUser_Cons_fst by (auto split: option.splits)
  qed
  with cleanupUser_distinct[of rs sid] assms show ?thesis
    by (simp add: registry_ok_def)
qed

lemma on_create_room_Returns:
  assumes "on_create_room eng sid s = Returns s' em"
  shows "\<exists>code. generateRoomCode_on (stack eng) (rooms s) (random eng) 0 = Inr code
           \<and> is_room_code code
           \<and> map_of (rooms s) code = None
           \<and> s' = s\<lparr>rooms := AList.update code
                        \<lparr>moderatorId = Some sid, players = [], status = Waiting\<rparr> (rooms s),
                      groups := List.insert (code, sid) (groups s)\<rparr>
           \<and> em = [(To_socket sid, Room_created code),
                    (To_socket sid, Role_assigned Moderator None),
                    (To_socket sid, Player_list_update []),
                    (To_socket sid, Init_state True 0)]"
proof -
  from assms obtain code where
    gen: "generateRoomCode_on (stack eng) (rooms s) (random eng) 0 = Inr code"
    by (auto simp: on_create_room_def split: sum.splits)
  from generateRoomCode_Some[OF generateRoomCode_on_Inr[OF gen]]
  have code: "is_room_code code" and fresh: "map_of (rooms s) code = None"
    by (simp_all add: is_room_code_def has_def)
  from assms gen fresh code show ?thesis
    by (simp add: on_create_room_def getRoom_def Let_def)
qed

lemma wf_create_room:
  assumes "wf_state s" and "valid_socket_id sid" and "on_create_room eng sid s = Returns s' em"
  shows "wf_state s'"
proof -
  let ?room = "\<lparr>moderatorId = Some sid, players = [], status = Waiting\<rparr>"
  from on_create_room_Returns[OF assms(3)] obtain code where
    code: "is_room_code code"
    and s': "s' = s\<lparr>rooms := AList.update code ?room (rooms s),
                     groups := List.insert (code, sid) (groups s)\<rparr>"
    by blast
  have "room_ok ?room"
    using assms(2) by (simp add: room_ok_def)
  with assms(1) code have "registry_ok (AList.update code ?room (rooms s))"
    by (simp add: wf_state_def registry_ok_update)
  with assms(1) code show ?thesis
    unfolding s' by (auto simp: wf_state_def)
qed

lemma on_join_room_absent:
  assumes "field payload ''roomId'' = JStr roomId"
    and "map_of (rooms s) (trim eng (toUpperCase eng roomId)) = Some room"
    and "sid \<notin> pid ` set (players room)"
    and "room' = room\<lparr>players := players room @
                   [\<lparr>pid = sid,
                     name = (if js_truthy (field payload ''name'') then field payload ''name''
                             else JStr (default_name sid)),
                     role = JNull\<rparr>]\<rparr>"
  shows "on_join_room eng sid payload s =
         Returns
           (s\<lparr>rooms := AList.update (trim eng (toUpperCase eng roomId)) room' (rooms s),
              groups := List.insert (trim eng (toUpperCase eng roomId), sid) (groups s)\<rparr>)
           ([(To_socket sid, Role_assigned Player (Some (trim eng (toUpperCase eng roomId)))),
             (To_group (trim eng (toUpperCase eng roomId)), Player_count_update (length (players room')))]
            @ (case moderatorId room of
                 None \<Rightarrow> []
               | Some m \<Rightarrow> if m \<noteq> [] then [(To_group m, Player_list_update (players room'))]
                          else [])
            @ [(To_socket sid, Init_state (truthy (moderatorId room)) (length (players room')))])"
proof -
  have "find (\<lambda>p. pid p = sid) (players room) = None"
    using assms(3) by (simp add: find_pid_None)
  then show ?thesis
    using assms(1,2) field_JStr_not_nullish[OF assms(1)] unfolding assms(4)
    by (simp add: on_join_room_def Let_def)
qed

text \<open>What a handler that returns has done: nothing, or its whole effect.\<close>

lemma on_join_room_Returns:
  assumes "on_join_room eng sid payload s = Returns s' em"
  shows "(s' = s \<and> (\<exists>t. em = [(To_socket sid, Error_msg t)]))
       \<or> (\<exists>roomId room.
             field payload ''roomId'' = JStr roomId
           \<and> map_of (rooms s) (trim eng (toUpperCase eng roomId)) = Some room)"
  using assms
  by (auto simp: on_join_room_def Let_def split: if_splits jsval.splits option.splits)

lemma on_start_assign_roles_Returns:
  assumes "on_start_assign_roles eng sid payload s = Returns s' em"
  shows "(s' = s \<and> (em = [] \<or> (\<exists>t. em = [(To_socket sid, Error_msg t)])))
       \<or> (\<exists>roomId roles room.
             field payload ''roomId'' = JStr roomId
           \<and> map_of (rooms s) roomId = Some room \<and> moderatorId room = Some sid
           \<and> js_length (field payload ''selectedRoles'')
               = Some (JNum (of_nat (length (players room))))
           \<and> spread (field payload ''selectedRoles'') = Some roles)"
proof (cases "field payload ''roomId''")
  case (JStr roomId)
  show ?thesis
  proof (cases "map_of (rooms s) roomId")
    case None
    with assms JStr show ?thesis
      by (simp add: on_start_assign_roles_def split: if_splits)
  next
    case (Some room)
    show ?thesis
    proof (cases "moderatorId room = Some sid")
      case False
      with assms JStr Some show ?thesis
        by (auto simp: on_start_assign_roles_def split: if_splits)
    next
      case True
      with assms JStr Some show ?thesis
        by (auto simp: on_start_assign_roles_def split: if_splits option.splits)
    qed
  qed
qed (use assms in \<open>auto simp: on_start_assign_roles_def split: if_splits\<close>)

lemma on_reset_room_success:
  assumes "field payload ''roomId'' = JStr roomId"
    and "map_of (rooms s) roomId = Some room"
    and "moderatorId room = Some sid"
  shows "on_reset_room sid payload s =
         Returns
           (s\<lparr>rooms := AList.update roomId
                (room\<lparr>players := map (\<lambda>p. p\<lparr>role := JNull\<rparr>) (players room),
                      status := Waiting\<rparr>) (rooms s)\<rparr>)
           [(To_group roomId, Room_reset),
            (To_socket sid, Player_list_update (map (\<lambda>p. p\<lparr>role := JNull\<rparr>) (players room))),
            (To_socket sid, Player_count_update (length (players room))),
            (To_socket sid, Status_msg msg_reset)]"
  using assms field_JStr_not_nullish[OF assms(1)] by (simp add: on_reset_room_def Let_def)

lemma on_reset_room_Returns:
  assumes "on_reset_room sid payload s = Returns s' em"
  shows "(s' = s \<and> em = [])
       \<or> (\<exists>roomId room.
             field payload ''roomId'' = JStr roomId
           \<and> map_of (rooms s) roomId = Some room \<and> moderatorId room = Some sid)"
  using assms
  by (auto simp: on_reset_room_def split: if_splits jsval.splits option.splits)

text \<open>The connection that \<^verbatim>\<open>kick_player\<close> finds under \<^verbatim>\<open>playerId\<close>, if any.\<close>

lemma on_kick_player_success:
  assumes "field payload ''roomId'' = JStr roomId"
    and "map_of (rooms s) roomId = Some room"
    and "moderatorId room = Some sid"
    and "target = (case field payload ''playerId'' of
                     JStr t \<Rightarrow> if t \<in> set (sockets s) then Some t else None
                   | _ \<Rightarrow> None)"
    and "ps = filter (\<lambda>p. JStr (pid p) \<noteq> field payload ''playerId'') (players room)"
  shows "on_kick_player sid payload s =
         Returns
           (s\<lparr>rooms := AList.update roomId (room\<lparr>players := ps\<rparr>) (rooms s),
              groups := (case target of
                           None \<Rightarrow> groups s
                         | Some t \<Rightarrow> removeAll (roomId, t) (groups s))\<rparr>)
           ([(To_group roomId, Player_count_update (length ps)),
             (To_group sid, Player_list_update ps)]
            @ (case target of
                 None \<Rightarrow> []
               | Some t \<Rightarrow> [(To_socket t, Kicked), (To_socket t, Error_msg msg_kicked)]))"
  using assms field_JStr_not_nullish[OF assms(1)]
  by (cases "field payload ''playerId''") (simp_all add: on_kick_player_def Let_def)

lemma on_kick_player_Returns:
  assumes "on_kick_player sid payload s = Returns s' em"
  shows "(s' = s \<and> em = [])
       \<or> (\<exists>roomId room.
             field payload ''roomId'' = JStr roomId
           \<and> map_of (rooms s) roomId = Some room \<and> moderatorId room = Some sid)"
  using assms
  by (auto simp: on_kick_player_def split: if_splits jsval.splits option.splits)

lemma wf_join_room:
  assumes "wf_state s" and "valid_socket_id sid" and "on_join_room eng sid payload s = Returns s' em"
  shows "wf_state s'"
proof -
  from on_join_room_Returns[OF assms(3)]
  consider "s' = s"
    | roomId room where "field payload ''roomId'' = JStr roomId"
        "map_of (rooms s) (trim eng (toUpperCase eng roomId)) = Some room"
    by blast
  then show ?thesis
  proof cases
    case 1
    with assms(1) show ?thesis by simp
  next
    case 2
    let ?code = "trim eng (toUpperCase eng roomId)"
    from assms(1) have "registry_ok (rooms s)"
      by (simp add: wf_state_def)
    from registry_ok_lookup[OF this 2(2)] have code: "is_room_code ?code" and ok: "room_ok room"
      by simp_all
    have grp: "\<forall>(g, x) \<in> set (List.insert (?code, sid) (groups s)). is_room_code g"
      using assms(1) code by (auto simp: wf_state_def)
    show ?thesis
    proof (cases "sid \<in> pid ` set (players room)")
      case True
      from on_join_room_present[OF 2(1,2) True] assms(3)
      have "s' = s\<lparr>groups := List.insert (?code, sid) (groups s)\<rparr>"
        by simp
      with assms(1) grp show ?thesis
        by (simp add: wf_state_def)
    next
      case False
      let ?room = "room\<lparr>players := players room @
                   [\<lparr>pid = sid,
                     name = (if js_truthy (field payload ''name'') then field payload ''name''
                             else JStr (default_name sid)),
                     role = JNull\<rparr>]\<rparr>"
      from on_join_room_absent[OF 2(1,2) False refl] assms(3)
      have s': "s' = s\<lparr>rooms := AList.update ?code ?room (rooms s),
                        groups := List.insert (?code, sid) (groups s)\<rparr>"
        by simp
      have "room_ok ?room"
        using ok False assms(2) by (auto simp: room_ok_def)
      with assms(1) code have "registry_ok (AList.update ?code ?room (rooms s))"
        by (simp add: wf_state_def registry_ok_update)
      with assms(1) grp show ?thesis
        unfolding s' by (simp add: wf_state_def)
    qed
  qed
qed

lemma room_ok_same_ids:
  assumes "room_ok room" and "moderatorId room' = moderatorId room"
    and "moderatorId room \<noteq> None" and "distinct (map pid (players room'))"
    and "pid ` set (players room') \<subseteq> pid ` set (players room)"
  shows "room_ok room'"
proof -
  have "\<forall>p \<in> set (players room'). valid_socket_id (pid p)"
  proof
    fix p assume "p \<in> set (players room')"
    with assms(5) obtain q where "q \<in> set (players room)" and "pid q = pid p"
      by (metis (no_types, lifting) image_iff subsetD)
    with assms(1) show "valid_socket_id (pid p)"
      by (metis room_ok_def)
  qed
  with assms(1-4) show ?thesis
    by (simp add: room_ok_def)
qed

lemma wf_state_rooms_update:
  assumes "wf_state s" and "map_of (rooms s) k = Some room" and "room_ok room'"
  shows "wf_state (s\<lparr>rooms := AList.update k room' (rooms s)\<rparr>)"
proof -
  from assms(1) have ok: "registry_ok (rooms s)"
    by (simp add: wf_state_def)
  from registry_ok_lookup[OF ok assms(2)] have "is_room_code k"
    by simp
  with ok assms(3) have "registry_ok (AList.update k room' (rooms s))"
    by (simp add: registry_ok_update)
  with assms(1) show ?thesis
    by (simp add: wf_state_def)
qed

lemma wf_start_assign_roles:
  assumes "wf_state s" and "on_start_assign_roles eng sid payload s = Returns s' em"
  shows "wf_state s'"
proof -
  from on_start_assign_roles_Returns[OF assms(2)]
  consider "s' = s"
    | roomId roles room where "field payload ''roomId'' = JStr roomId"
        "map_of (rooms s) roomId = Some room" "moderatorId room = Some sid"
        "js_length (field payload ''selectedRoles'')
           = Some (JNum (of_nat (length (players room))))"
        "spread (field payload ''selectedRoles'') = Some roles"
    by blast
  then show ?thesis
  proof cases
    case 1
    with assms(1) show ?thesis by simp
  next
    case 2
    let ?ps = "fst (assign_each (players room) (fisher_yates (random eng) roles))"
    let ?room = "room\<lparr>players := ?ps, status := Assigned\<rparr>"
    from on_start_assign_roles_dealt[OF 2, of eng] assms(2)
    have s': "s' = s\<lparr>rooms := AList.update roomId ?room (rooms s)\<rparr>"
      by simp
    from assms(1) 2(2) have ok: "room_ok room"
      using registry_ok_lookup[of "rooms s" roomId room] by (simp add: wf_state_def)
    have ids: "map pid ?ps = map pid (players room)"
      by (rule assign_each_pid)
    then have "pid ` set ?ps = pid ` set (players room)"
      by (metis set_map)
    moreover from ids ok have "distinct (map pid ?ps)"
      by (simp add: room_ok_def)
    ultimately have "room_ok ?room"
      using room_ok_same_ids[OF ok, of ?room] 2(3) by simp
    from wf_state_rooms_update[OF assms(1) 2(2) this] show ?thesis
      unfolding s' .
  qed
qed

lemma wf_reset_room:
  assumes "wf_state s" and "on_reset_room sid payload s = Returns s' em"
  shows "wf_state s'"
proof -
  from on_reset_room_Returns[OF assms(2)]
  consider "s' = s"
    | roomId room where "field payload ''roomId'' = JStr roomId"
        "map_of (rooms s) roomId = Some room" "moderatorId room = Some sid"
    by blast
  then show ?thesis
  proof cases
    case 1
    with assms(1) show ?thesis by simp
  next
    case 2
    let ?ps = "map (\<lambda>p. p\<lparr>role := JNull\<rparr>) (players room)"
    let ?room = "room\<lparr>players := ?ps, status := Waiting\<rparr>"
    from on_reset_room_success[OF 2] assms(2)
    have s': "s' = s\<lparr>rooms := AList.update roomId ?room (rooms s)\<rparr>"
      by simp
    from assms(1) 2(2) have ok: "room_ok room"
      using registry_ok_lookup[of "rooms s" roomId room] by (simp add: wf_state_def)
    have ids: "map pid ?ps = map pid (players room)"
      by (simp add: comp_def)
    then have "pid ` set ?ps = pid ` set (players room)"
      by (metis set_map)
    moreover have "distinct (map pid ?ps)"
      unfolding ids using ok by (simp add: room_ok_def)
    ultimately have "room_ok ?room"
      using room_ok_same_ids[OF ok, of ?room] 2(3) by simp
    from wf_state_rooms_update[OF assms(1) 2(2) this] show ?thesis
      unfolding s' .
  qed
qed

lemma wf_kick_player:
  assumes "wf_state s" and "on_kick_player sid payload s = Returns s' em"
  shows "wf_state s'"
proof -
  from on_kick_player_Returns[OF assms(2)]
  consider "s' = s"
    | roomId room where "field payload ''roomId'' = JStr roomId"
        "map_of (rooms s) roomId = Some room" "moderatorId room = Some sid"
    by blast
  then show ?thesis
  proof cases
    case 1
    with assms(1) show ?thesis by simp
  next
    case 2
    let ?ps = "filter (\<lambda>p. JStr (pid p) \<noteq> field payload ''playerId'') (players room)"
    let ?room = "room\<lparr>players := ?ps\<rparr>"
    define target where "target =
      (case field payload ''playerId'' of
         JStr t \<Rightarrow> if t \<in> set (sockets s) then Some t else None
       | _ \<Rightarrow> None)"
    define grp where "grp =
      (case target of None \<Rightarrow> groups s | Some t \<Rightarrow> removeAll (roomId, t) (groups s))"
    from on_kick_player_success[OF 2 target_def refl] assms(2)
    have s': "s' = s\<lparr>rooms := AList.update roomId ?room (rooms s), groups := grp\<rparr>"
      unfolding grp_def by simp
    have grp: "set grp \<subseteq> set (groups s)"
      unfolding grp_def by (auto split: option.splits)
    from assms(1) 2(2) have ok: "room_ok room"
      using registry_ok_lookup[of "rooms s" roomId room] by (simp add: wf_state_def)
    have "distinct (map pid ?ps)"
      using ok by (simp add: room_ok_def distinct_map_filter)
    moreover have "pid ` set ?ps \<subseteq> pid ` set (players room)"
      by auto
    ultimately have "room_ok ?room"
      using room_ok_same_ids[OF ok, of ?room] 2(3) by simp
    from wf_state_rooms_update[OF assms(1) 2(2) this] grp show ?thesis
      unfolding s' by (auto simp: wf_state_def)
  qed
qed

lemma wf_disconnect:
  assumes "wf_state s" and "on_disconnect sid s = Returns s' em"
  shows "wf_state s'"
proof -
  from assms(2) have s': "s' = transport_drop sid s\<lparr>rooms := fst (cleanupUser sid (rooms s))\<rparr>"
    by (simp add: on_disconnect_def split: prod.splits)
  from assms(1) have "registry_ok (fst (cleanupUser sid (rooms s)))"
    by (simp add: wf_state_def registry_ok_cleanupUser)
  with assms(1) show ?thesis
    unfolding s' by (auto simp: wf_state_def transport_drop_def)
qed

lemma wf_handle:
  assumes "wf_state s" and "valid_socket_id sid" and "handle eng sid ev s = Returns s' em"
  shows "wf_state s'"
  using assms
  by (cases ev)
     (auto intro: wf_create_room wf_join_room wf_start_assign_roles wf_reset_room
        wf_kick_player wf_disconnect)

lemma wf_exec: "wf_state s \<Longrightarrow> exec tr s = Some s' \<Longrightarrow> wf_state s'"
proof (induction tr arbitrary: s)
  case Nil
  then show ?case by simp
next
  case (Cons st tr)
  show ?case
  proof (cases st)
    case (Connect sid)
    with Cons.prems(2) have run: "exec tr (connection sid s) = Some s'"
      and valid: "valid_socket_id sid"
      by (simp_all split: if_splits)
    from Cons.prems(1) valid have "wf_state (connection sid s)"
      by (simp add: wf_state_def connection_def)
    from Cons.IH[OF this run] show ?thesis .
  next
    case (Inbound sid ev eng)
    with Cons.prems(2) obtain s1 em where h: "handle eng sid ev s = Returns s1 em"
      and run: "exec tr s1 = Some s'" and live: "sid \<in> set (sockets s)"
      by (auto split: if_splits outcome.splits)
    from Cons.prems(1) live have "valid_socket_id sid"
      by (simp add: wf_state_def)
    from wf_handle[OF Cons.prems(1) this h] have "wf_state s1" .
    from Cons.IH[OF this run] show ?thesis .
  qed
qed

lemma wf_init: "wf_state init"
  by (simp add: wf_state_def registry_ok_def init_def)

lemma wf_reachable: "exec tr init = Some s \<Longrightarrow> wf_state s"
  using wf_exec[OF wf_init] .

subsection \<open>Rooms are never empty and unmoderated, players are never duplicated\<close>

lemma wf_state_room_ok:
  assumes "wf_state s" and "(c, r) \<in> set (rooms s)"
  shows "room_ok r"
  using assms by (auto simp: wf_state_def registry_ok_def)

lemma last_player_swept:
  assumes "distinct (map fst rs)" and "map_of rs code = Some room"
    and "moderatorId room = None" and "players room = [p]" and "pid p = sid"
  shows "map_of (fst (cleanupUser sid rs)) code = None"
proof -
  have "fst (cleanup_entry sid code room) = None"
    using assms(3,4,5) by (simp add: cleanup_entry_eq Let_def truthy_def)
  with cleanupUser_map_of[OF assms(1), of sid code] assms(2) show ?thesis
    by simp
qed

lemma on_disconnect_rooms:
  "on_disconnect sid s =
     Returns (transport_drop sid s\<lparr>rooms := fst (cleanupUser sid (rooms s))\<rparr>)
             (snd (cleanupUser sid (rooms s)))"
  by (simp add: on_disconnect_def split: prod.splits)

text \<open>
  Claim C4: in every state the server reaches, whatever the events were, no room of the
  registry has an empty player list and no moderator; and when the only player of a room
  without moderator disconnects, the handler returns and the room's code resolves to no
  room any more.
\<close>

theorem no_empty_unmoderated_room:
  assumes "exec tr init = Some s"
  shows "(\<forall>(code, room) \<in> set (rooms s). \<not> (players room = [] \<and> moderatorId room = None))
       \<and> (\<forall>code room p eng.
             map_of (rooms s) code = Some room \<and> moderatorId room = None \<and> players room = [p]
             \<longrightarrow> (\<exists>s' em. handle eng (pid p) Disconnect s = Returns s' em
                          \<and> map_of (rooms s') code = None))"
proof -
  from assms have wf: "wf_state s"
    by (rule wf_reachable)
  have "\<forall>(code, room) \<in> set (rooms s). \<not> (players room = [] \<and> moderatorId room = None)"
  proof (clarify)
    fix code room
    assume "(code, room) \<in> set (rooms s)" and "players room = []" and "moderatorId room = None"
    with wf_state_room_ok[OF wf, of code room] show False
      by (simp add: room_ok_def)
  qed
  moreover have "\<exists>s' em. handle eng (pid p) Disconnect s = Returns s' em
                          \<and> map_of (rooms s') code = None"
    if "map_of (rooms s) code = Some room" and "moderatorId room = None" and "players room = [p]"
    for code room p eng
  proof -
    from wf have "distinct (map fst (rooms s))"
      by (simp add: wf_state_def registry_ok_def)
    from last_player_swept[OF this that refl]
    show ?thesis
      by (simp add: on_disconnect_rooms transport_drop_def)
  qed
  ultimately show ?thesis
    by blast
qed

text \<open>
  A run of C4: the moderator creates the room ABCD, Ana joins, the moderator disconnects
  and the room stays; then Ana disconnects and the registry is empty.
\<close>

lemma exec_mod_left:
  "exec [Connect ''mod'', Connect ''ana'',
         Inbound ''mod'' Create_room counting,
         Inbound ''ana'' (Join_room (join_as ''abcd '' ''Ana'')) counting,
         Inbound ''mod'' Disconnect counting]
     init
   = Some \<lparr>rooms = [(''ABCD'', \<lparr>moderatorId = None,
                       players = [\<lparr>pid = ''ana'', name = JStr ''Ana'', role = JNull\<rparr>],
                       status = Waiting\<rparr>)],
           sockets = [''ana''],
           groups = [(''ABCD'', ''ana'')]\<rparr>"
  by (simp add: init_def connection_def valid_socket_id_example create_room_example
      on_join_room_def join_as_def field_def nullish_def normalise_example Let_def truthy_def
      on_disconnect_def
      cleanup_entry_def transport_drop_def)

theorem no_empty_unmoderated_room_witness:
  "exec [Connect ''mod'', Connect ''ana'',
         Inbound ''mod'' Create_room counting,
         Inbound ''ana'' (Join_room (join_as ''abcd '' ''Ana'')) counting,
         Inbound ''mod'' Disconnect counting]
     init
   = Some \<lparr>rooms = [(''ABCD'', \<lparr>moderatorId = None,
                       players = [\<lparr>pid = ''ana'', name = JStr ''Ana'', role = JNull\<rparr>],
                       status = Waiting\<rparr>)],
           sockets = [''ana''],
           groups = [(''ABCD'', ''ana'')]\<rparr>
   \<and> handle counting ''ana'' Disconnect
       \<lparr>rooms = [(''ABCD'', \<lparr>moderatorId = None,
                       players = [\<lparr>pid = ''ana'', name = JStr ''Ana'', role = JNull\<rparr>],
                       status = Waiting\<rparr>)],
           sockets = [''ana''],
           groups = [(''ABCD'', ''ana'')]\<rparr>
     = Returns \<lparr>rooms = [], sockets = [], groups = []\<rparr>
         [(To_group ''ABCD'', Player_count_update 0)]
   \<and> map_of (rooms \<lparr>rooms = [], sockets = [], groups = []\<rparr>) ''ABCD'' = None"
proof -
  have run: "handle counting ''ana'' Disconnect
       \<lparr>rooms = [(''ABCD'', \<lparr>moderatorId = None,
                       players = [\<lparr>pid = ''ana'', name = JStr ''Ana'', role = JNull\<rparr>],
                       status = Waiting\<rparr>)],
           sockets = [''ana''],
           groups = [(''ABCD'', ''ana'')]\<rparr>
     = Returns \<lparr>rooms = [], sockets = [], groups = []\<rparr>
         [(To_group ''ABCD'', Player_count_update 0)]"
    by (simp add: on_disconnect_def cleanup_entry_def transport_drop_def truthy_def Let_def)
  note no_empty_unmoderated_room[OF exec_mod_left]
  then have "\<forall>(code, room) \<in> set [(''ABCD'', \<lparr>moderatorId = None,
                       players = [\<lparr>pid = ''ana'', name = JStr ''Ana'', role = JNull\<rparr>],
                       status = Waiting\<rparr>)]. \<not> (players room = [] \<and> moderatorId room = None)"
    by simp
  with exec_mod_left run show ?thesis
    by simp
qed

lemma on_join_room_member:
  assumes "on_join_room eng sid payload s = Returns s' em"
    and "field payload ''roomId'' = JStr roomId"
    and "map_of (rooms s') (trim eng (toUpperCase eng roomId)) = Some room'"
  shows "sid \<in> pid ` set (players room')"
proof (cases "map_of (rooms s) (trim eng (toUpperCase eng roomId))")
  case None
  with assms(1,2) field_JStr_not_nullish[OF assms(2)] have "s' = s"
    by (simp add: on_join_room_def Let_def)
  with None assms(3) show ?thesis
    by simp
next
  case (Some room)
  show ?thesis
  proof (cases "sid \<in> pid ` set (players room)")
    case True
    from on_join_room_present[OF assms(2) Some True] assms(1) have "rooms s' = rooms s"
      by auto
    with Some assms(3) True show ?thesis
      by simp
  next
    case False
    let ?p = "\<lparr>pid = sid,
               name = (if js_truthy (field payload ''name'') then field payload ''name''
                       else JStr (default_name sid)),
               role = JNull\<rparr>"
    from on_join_room_absent[OF assms(2) Some False refl] assms(1)
    have "rooms s' = AList.update (trim eng (toUpperCase eng roomId))
                       (room\<lparr>players := players room @ [?p]\<rparr>) (rooms s)"
      by auto
    then have "map_of (rooms s') (trim eng (toUpperCase eng roomId))
                 = Some (room\<lparr>players := players room @ [?p]\<rparr>)"
      by (simp add: update_conv')
    with assms(3) have "room' = room\<lparr>players := players room @ [?p]\<rparr>"
      by simp
    then show ?thesis
      by simp
  qed
qed

lemma one_entry:
  "distinct (map pid ps) \<Longrightarrow> sid \<in> pid ` set ps \<Longrightarrow> length (filter (\<lambda>p. pid p = sid) ps) = 1"
proof (induction ps)
  case Nil
  then show ?case by simp
next
  case (Cons q ps)
  show ?case
  proof (cases "pid q = sid")
    case True
    with Cons.prems(1) have "sid \<notin> pid ` set ps"
      by simp
    then have "\<forall>p \<in> set ps. pid p \<noteq> sid"
      by blast
    then have "filter (\<lambda>p. pid p = sid) ps = []"
      by (simp add: filter_empty_conv)
    with True show ?thesis by simp
  next
    case False
    with Cons show ?thesis by auto
  qed
qed

text \<open>
  Claim C5: in every state the server reaches, no room has two players with the same
  connection identifier; and when a live connection sends \<^verbatim>\<open>join_room\<close> for the same room
  twice, under any names (any two payloads with that \<^verbatim>\<open>roomId\<close>, on engines with the same
  string methods), the second join leaves the room as the first left it, with exactly one
  player entry for that connection.
\<close>

theorem players_unique_ids:
  assumes "exec tr init = Some s"
  shows "(\<forall>(code, room) \<in> set (rooms s). distinct (map pid (players room)))
       \<and> (\<forall>sid roomId payload payload' eng eng' s1 em1 s2 em2 room1.
             sid \<in> set (sockets s)
           \<and> field payload ''roomId'' = JStr roomId \<and> field payload' ''roomId'' = JStr roomId
           \<and> toUpperCase eng' = toUpperCase eng \<and> trim eng' = trim eng
           \<and> handle eng sid (Join_room payload) s = Returns s1 em1
           \<and> map_of (rooms s1) (trim eng (toUpperCase eng roomId)) = Some room1
           \<and> handle eng' sid (Join_room payload') s1 = Returns s2 em2
           \<longrightarrow> map_of (rooms s2) (trim eng (toUpperCase eng roomId)) = Some room1
               \<and> length (filter (\<lambda>p. pid p = sid) (players room1)) = 1)"
proof -
  from assms have wf: "wf_state s"
    by (rule wf_reachable)
  have "\<forall>(code, room) \<in> set (rooms s). distinct (map pid (players room))"
  proof (clarify)
    fix code room
    assume "(code, room) \<in> set (rooms s)"
    from wf_state_room_ok[OF wf this] show "distinct (map pid (players room))"
      by (simp add: room_ok_def)
  qed
  moreover have "map_of (rooms s2) (trim eng (toUpperCase eng roomId)) = Some room1
               \<and> length (filter (\<lambda>p. pid p = sid) (players room1)) = 1"
    if live: "sid \<in> set (sockets s)"
      and f1: "field payload ''roomId'' = JStr roomId"
      and f2: "field payload' ''roomId'' = JStr roomId"
      and same: "toUpperCase eng' = toUpperCase eng" "trim eng' = trim eng"
      and j1: "handle eng sid (Join_room payload) s = Returns s1 em1"
      and r1: "map_of (rooms s1) (trim eng (toUpperCase eng roomId)) = Some room1"
      and j2: "handle eng' sid (Join_room payload') s1 = Returns s2 em2"
    for sid roomId payload payload' eng eng' s1 em1 s2 em2 room1
  proof -
    from wf live have valid: "valid_socket_id sid"
      by (simp add: wf_state_def)
    from wf_handle[OF wf valid j1] have wf1: "wf_state s1" .
    from j1 f1 r1 have member: "sid \<in> pid ` set (players room1)"
      using on_join_room_member[of eng sid payload s s1 em1 roomId room1] by simp
    from r1 have "(trim eng (toUpperCase eng roomId), room1) \<in> set (rooms s1)"
      by (rule map_of_SomeD)
    from wf_state_room_ok[OF wf1 this] have "distinct (map pid (players room1))"
      by (simp add: room_ok_def)
    from one_entry[OF this member] have one: "length (filter (\<lambda>p. pid p = sid) (players room1)) = 1" .
    from r1 same have r1': "map_of (rooms s1) (trim eng' (toUpperCase eng' roomId)) = Some room1"
      by simp
    from on_join_room_present[OF f2 r1' member] j2 have "rooms s2 = rooms s1"
      by auto
    with r1 one show ?thesis
      by simp
  qed
  ultimately show ?thesis
    by blast
qed

text \<open>
  A run of C5: after the moderator has created the room ABCD, Ana joins it twice, the second
  time as Bob; the room has one player, Ana.
\<close>

lemma exec_created:
  "exec [Connect ''mod'', Connect ''ana'', Inbound ''mod'' Create_room counting] init
   = Some \<lparr>rooms = [(''ABCD'', \<lparr>moderatorId = Some ''mod'', players = [], status = Waiting\<rparr>)],
           sockets = [''mod'', ''ana''],
           groups = [(''ABCD'', ''mod'')]\<rparr>"
  by (simp add: init_def connection_def valid_socket_id_example create_room_example)

theorem players_unique_ids_witness:
  "exec [Connect ''mod'', Connect ''ana'', Inbound ''mod'' Create_room counting] init
   = Some \<lparr>rooms = [(''ABCD'', \<lparr>moderatorId = Some ''mod'', players = [], status = Waiting\<rparr>)],
           sockets = [''mod'', ''ana''],
           groups = [(''ABCD'', ''mod'')]\<rparr>
   \<and> handle counting ''ana'' (Join_room (join_as ''abcd '' ''Ana''))
       \<lparr>rooms = [(''ABCD'', \<lparr>moderatorId = Some ''mod'', players = [], status = Waiting\<rparr>)],
         sockets = [''mod'', ''ana''],
         groups = [(''ABCD'', ''mod'')]\<rparr>
     = Returns
         \<lparr>rooms = [(''ABCD'', \<lparr>moderatorId = Some ''mod'',
                     players = [\<lparr>pid = ''ana'', name = JStr ''Ana'', role = JNull\<rparr>],
                     status = Waiting\<rparr>)],
           sockets = [''mod'', ''ana''],
           groups = [(''ABCD'', ''ana''), (''ABCD'', ''mod'')]\<rparr>
         [(To_socket ''ana'', Role_assigned Player (Some ''ABCD'')),
          (To_group ''ABCD'', Player_count_update 1),
          (To_group ''mod'', Player_list_update
             [\<lparr>pid = ''ana'', name = JStr ''Ana'', role = JNull\<rparr>]),
          (To_socket ''ana'', Init_state True 1)]
   \<and> handle zeros ''ana'' (Join_room (join_as ''abcd '' ''Bob''))
         \<lparr>rooms = [(''ABCD'', \<lparr>moderatorId = Some ''mod'',
                     players = [\<lparr>pid = ''ana'', name = JStr ''Ana'', role = JNull\<rparr>],
                     status = Waiting\<rparr>)],
           sockets = [''mod'', ''ana''],
           groups = [(''ABCD'', ''ana''), (''ABCD'', ''mod'')]\<rparr>
     = Returns
         \<lparr>rooms = [(''ABCD'', \<lparr>moderatorId = Some ''mod'',
                     players = [\<lparr>pid = ''ana'', name = JStr ''Ana'', role = JNull\<rparr>],
                     status = Waiting\<rparr>)],
           sockets = [''mod'', ''ana''],
           groups = [(''ABCD'', ''ana''), (''ABCD'', ''mod'')]\<rparr>
         [(To_socket ''ana'', Role_assigned Player (Some ''ABCD'')),
          (To_group ''ABCD'', Player_count_update 1),
          (To_group ''mod'', Player_list_update
             [\<lparr>pid = ''ana'', name = JStr ''Ana'', role = JNull\<rparr>]),
          (To_socket ''ana'', Init_state True 1)]
   \<and> length (filter (\<lambda>p. pid p = ''ana'')
        [\<lparr>pid = ''ana'', name = JStr ''Ana'', role = JNull\<rparr>]) = 1"
proof -
  let ?s = "\<lparr>rooms = [(''ABCD'', \<lparr>moderatorId = Some ''mod'', players = [], status = Waiting\<rparr>)],
             sockets = [''mod'', ''ana''],
             groups = [(''ABCD'', ''mod'')]\<rparr>"
  let ?room1 = "\<lparr>moderatorId = Some ''mod'',
                  players = [\<lparr>pid = ''ana'', name = JStr ''Ana'', role = JNull\<rparr>],
                  status = Waiting\<rparr>"
  let ?s1 = "\<lparr>rooms = [(''ABCD'', ?room1)],
              sockets = [''mod'', ''ana''],
              groups = [(''ABCD'', ''ana''), (''ABCD'', ''mod'')]\<rparr>"
  let ?em = "[(To_socket ''ana'', Role_assigned Player (Some ''ABCD'')),
          (To_group ''ABCD'', Player_count_update 1),
          (To_group ''mod'', Player_list_update
             [\<lparr>pid = ''ana'', name = JStr ''Ana'', role = JNull\<rparr>]),
          (To_socket ''ana'', Init_state True 1)]"
  have live: "''ana'' \<in> set (sockets ?s)"
    by simp
  have f1: "field (join_as ''abcd '' ''Ana'') ''roomId'' = JStr ''abcd ''"
    and f2: "field (join_as ''abcd '' ''Bob'') ''roomId'' = JStr ''abcd ''"
    by (simp_all add: join_as_def field_def)
  have same: "toUpperCase zeros = toUpperCase counting" "trim zeros = trim counting"
    by (simp_all add: zeros_def counting_def)
  have j1: "handle counting ''ana'' (Join_room (join_as ''abcd '' ''Ana'')) ?s = Returns ?s1 ?em"
    by (simp add: on_join_room_def join_as_def field_def nullish_def normalise_example
        Let_def truthy_def)
  have r1: "map_of (rooms ?s1) (trim counting (toUpperCase counting ''abcd '')) = Some ?room1"
    by (simp add: normalise_example)
  have j2: "handle zeros ''ana'' (Join_room (join_as ''abcd '' ''Bob'')) ?s1 = Returns ?s1 ?em"
    by (simp add: on_join_room_def join_as_def field_def nullish_def normalise_example same
        Let_def truthy_def)
  from players_unique_ids[OF exec_created]
  have "length (filter (\<lambda>p. pid p = ''ana'') (players ?room1)) = 1"
    using live f1 f2 same j1 r1 j2 by blast
  with exec_created j1 j2 show ?thesis
    by simp
qed

subsection \<open>Exceptions, frame and guard failures\<close>

lemma on_create_room_Throws:
  "(\<exists>s'. on_create_room eng sid s = Throws e s') \<longleftrightarrow>
     e = RangeError
     \<and> (\<forall>m \<in> set [0..<stack eng]. has (rooms s) (code_loop (random eng) (4 * m) 4 []))"
proof (cases "generateRoomCode_on (stack eng) (rooms s) (random eng) 0")
  case (Inl e')
  from Inl have "on_create_room eng sid s = Throws e' s"
    by (simp add: on_create_room_def)
  moreover from Inl generateRoomCode_on_Inl[of "stack eng" "rooms s" "random eng" 0 e']
  have "e' = RangeError"
    and "\<forall>m < stack eng. has (rooms s) (code_loop (random eng) (4 * m) 4 [])"
    by simp_all
  ultimately show ?thesis
    by auto
next
  case (Inr code)
  then have "\<exists>s' em. on_create_room eng sid s = Returns s' em"
    by (simp add: on_create_room_def Let_def split: prod.splits)
  moreover from Inr generateRoomCode_on_Inl[of "stack eng" "rooms s" "random eng" 0 RangeError]
  have "\<not> (\<forall>m < stack eng. has (rooms s) (code_loop (random eng) (4 * m) 4 []))"
    by simp
  ultimately show ?thesis
    by auto
qed

lemma on_join_room_Throws:
  "(\<exists>s'. on_join_room eng sid payload s = Throws e s') \<longleftrightarrow>
     raises eng sid (Join_room payload) s = Some e"
  by (cases "field payload ''roomId''")
     (auto simp: raises_def on_join_room_def Let_def split: option.splits)

lemma on_start_assign_roles_Throws:
  "(\<exists>s'. on_start_assign_roles eng sid payload s = Throws e s') \<longleftrightarrow>
     raises eng sid (Start_assign_roles payload) s = Some e"
proof (cases "nullish payload")
  case True
  then show ?thesis
    by (auto simp: raises_def on_start_assign_roles_def)
next
  case False
  note live = False
  show ?thesis
  proof (cases "rooms_get (rooms s) (field payload ''roomId'')")
    case None
    with live show ?thesis
      by (cases "field payload ''roomId''")
         (auto simp: raises_def on_start_assign_roles_def rooms_get_def)
  next
    case (Some room)
    then obtain roomId where roomId: "field payload ''roomId'' = JStr roomId"
      and room: "map_of (rooms s) roomId = Some room"
      by (cases "field payload ''roomId''") (auto simp: rooms_get_def)
    show ?thesis
    proof (cases "moderatorId room = Some sid")
      case False
      with live Some roomId room show ?thesis
        by (auto simp: raises_def on_start_assign_roles_def)
    next
      case True
      with live Some roomId room show ?thesis
        by (cases "field payload ''selectedRoles''")
           (auto simp: raises_def on_start_assign_roles_def js_length_def spread_def Let_def
              split: prod.splits)
    qed
  qed
qed

lemma on_reset_room_Throws:
  "(\<exists>s'. on_reset_room sid payload s = Throws e s') \<longleftrightarrow>
     raises eng sid (Reset_room payload) s = Some e"
  by (cases "field payload ''roomId''")
     (auto simp: raises_def on_reset_room_def Let_def split: option.splits)

lemma on_kick_player_Throws:
  "(\<exists>s'. on_kick_player sid payload s = Throws e s') \<longleftrightarrow>
     raises eng sid (Kick_player payload) s = Some e"
  by (cases "field payload ''roomId''"; cases "field payload ''playerId''")
     (auto simp: raises_def on_kick_player_def Let_def split: option.splits)

lemma handle_Throws_iff:
  "(\<exists>s'. handle eng sid ev s = Throws e s') \<longleftrightarrow> raises eng sid ev s = Some e"
proof (cases ev)
  case Create_room
  then show ?thesis
    using on_create_room_Throws[of eng sid s e] by (auto simp: raises_def)
next
  case (Join_room payload)
  then show ?thesis
    by (simp add: on_join_room_Throws)
next
  case (Start_assign_roles payload)
  then show ?thesis
    by (simp add: on_start_assign_roles_Throws)
next
  case (Reset_room payload)
  then show ?thesis
    by (simp add: on_reset_room_Throws[of sid payload s e eng])
next
  case (Kick_player payload)
  then show ?thesis
    by (simp add: on_kick_player_Throws[of sid payload s e eng])
next
  case Disconnect
  then show ?thesis
    by (simp add: raises_def on_disconnect_def split: prod.splits)
qed


lemma handle_Returns_iff:
  "(\<exists>s' em. handle eng sid ev s = Returns s' em) \<longleftrightarrow> raises eng sid ev s = None"
proof
  assume "\<exists>s' em. handle eng sid ev s = Returns s' em"
  then obtain s' em where r: "handle eng sid ev s = Returns s' em"
    by blast
  show "raises eng sid ev s = None"
  proof (cases "raises eng sid ev s")
    case None
    then show ?thesis .
  next
    case (Some e)
    with handle_Throws_iff[of eng sid ev s e] r show ?thesis
      by auto
  qed
next
  assume none: "raises eng sid ev s = None"
  show "\<exists>s' em. handle eng sid ev s = Returns s' em"
  proof (cases "handle eng sid ev s")
    case (Throws e s')
    with handle_Throws_iff[of eng sid ev s e] none show ?thesis
      by auto
  next
    case (Returns s' em)
    then show ?thesis
      by blast
  qed
qed



















subsection \<open>Who is sent a role\<close>

lemma receives_own_group:
  assumes "\<forall>(g, y) \<in> set grp. is_room_code g" and "valid_socket_id x"
    and "receives grp (To_group x) c"
  shows "c = x"
proof (rule ccontr)
  assume "c \<noteq> x"
  with assms(3) have "(x, c) \<in> set grp"
    by (simp add: receives_def)
  with assms(1) have "is_room_code x"
    by blast
  with assms(2) show False
    by (simp add: valid_socket_id_def)
qed

lemma rightly_free: "role_free m \<Longrightarrow> rightly_addressed s c m"
  by (cases m) (simp_all add: rightly_addressed_def)

lemma rightly_list:
  "(code, room) \<in> set (rooms s) \<Longrightarrow> moderatorId room = Some c
     \<Longrightarrow> rightly_addressed s c (Player_list_update (players room))"
  unfolding rightly_addressed_def by auto

lemma rightly_summary:
  "(code, room) \<in> set (rooms s) \<Longrightarrow> moderatorId room = Some c
     \<Longrightarrow> rightly_addressed s c (Role_summary (buildRoleSummary (players room)))"
  unfolding rightly_addressed_def by auto

lemma rightly_own_role:
  assumes "(code, room) \<in> set (rooms s)" and "p \<in> set (players room)"
  shows "rightly_addressed s (pid p) (Receive_role (role p))"
  using assms unfolding rightly_addressed_def by auto

lemma in_update: "(k, v) \<in> set (AList.update k v rs)"
proof -
  have "map_of (AList.update k v rs) k = Some v"
    by (simp add: update_conv')
  then show ?thesis
    by (rule map_of_SomeD)
qed

lemma create_room_addressing:
  assumes "on_create_room eng sid s = Returns s' em" and "(d, m) \<in> set em"
    and "receives grp d c"
  shows "rightly_addressed s' c m"
proof -
  let ?room = "\<lparr>moderatorId = Some sid, players = [], status = Waiting\<rparr>"
  from on_create_room_Returns[OF assms(1)] obtain code where
    s': "rooms s' = AList.update code ?room (rooms s)"
    and em: "em = [(To_socket sid, Room_created code),
                   (To_socket sid, Role_assigned Moderator None),
                   (To_socket sid, Player_list_update []),
                   (To_socket sid, Init_state True 0)]"
    by auto
  from assms(2) em consider "role_free m" | "d = To_socket sid" "m = Player_list_update []"
    by auto
  then show ?thesis
  proof cases
    case 1
    then show ?thesis by (rule rightly_free)
  next
    case 2
    from 2(1) assms(3) have "c = sid"
      by (simp add: receives_def)
    moreover have "(code, ?room) \<in> set (rooms s')"
      unfolding s' by (rule in_update)
    ultimately show ?thesis
      using rightly_list[of code ?room s' sid] 2(2) by simp
  qed
qed

lemma join_room_addressing:
  assumes "wf_state s" and "on_join_room eng sid payload s = Returns s' em" and "(d, m) \<in> set em"
    and "\<forall>(g, y) \<in> set grp. is_room_code g" and "receives grp d c"
  shows "rightly_addressed s' c m"
proof -
  from on_join_room_Returns[OF assms(2)]
  consider t where "em = [(To_socket sid, Error_msg t)]"
    | roomId room where "field payload ''roomId'' = JStr roomId"
        "map_of (rooms s) (trim eng (toUpperCase eng roomId)) = Some room"
    by blast
  then show ?thesis
  proof cases
    case 1
    with assms(3) have "role_free m"
      by auto
    then show ?thesis by (rule rightly_free)
  next
    case 2
    let ?code = "trim eng (toUpperCase eng roomId)"
    from assms(1) have "registry_ok (rooms s)"
      by (simp add: wf_state_def)
    from registry_ok_lookup[OF this 2(2)] have ok: "room_ok room"
      by simp
    obtain room' where s': "rooms s' = AList.update ?code room' (rooms s)"
      and md: "moderatorId room' = moderatorId room"
      and em: "em = [(To_socket sid, Role_assigned Player (Some ?code)),
                     (To_group ?code, Player_count_update (length (players room')))]
                    @ (case moderatorId room of
                         None \<Rightarrow> []
                       | Some x \<Rightarrow> if x \<noteq> [] then [(To_group x, Player_list_update (players room'))]
                                  else [])
                    @ [(To_socket sid, Init_state (truthy (moderatorId room)) (length (players room')))]"
    proof (cases "sid \<in> pid ` set (players room)")
      case True
      from on_join_room_present[OF 2(1,2) True] assms(2)
      have "rooms s' = rooms s" and e: "em = [(To_socket sid, Role_assigned Player (Some ?code)),
                     (To_group ?code, Player_count_update (length (players room)))]
                    @ (case moderatorId room of
                         None \<Rightarrow> []
                       | Some x \<Rightarrow> if x \<noteq> [] then [(To_group x, Player_list_update (players room))]
                                  else [])
                    @ [(To_socket sid, Init_state (truthy (moderatorId room)) (length (players room)))]"
        by auto
      then have "rooms s' = AList.update ?code room (rooms s)"
        using update_triv[OF 2(2)] by simp
      with e that[of room] show ?thesis
        by simp
    next
      case False
      let ?room = "room\<lparr>players := players room @
                   [\<lparr>pid = sid,
                     name = (if js_truthy (field payload ''name'') then field payload ''name''
                             else JStr (default_name sid)),
                     role = JNull\<rparr>]\<rparr>"
      from on_join_room_absent[OF 2(1,2) False refl] assms(2)
      have "rooms s' = AList.update ?code ?room (rooms s)"
        and "em = [(To_socket sid, Role_assigned Player (Some ?code)),
                     (To_group ?code, Player_count_update (length (players ?room)))]
                    @ (case moderatorId room of
                         None \<Rightarrow> []
                       | Some x \<Rightarrow> if x \<noteq> [] then [(To_group x, Player_list_update (players ?room))]
                                  else [])
                    @ [(To_socket sid, Init_state (truthy (moderatorId room)) (length (players ?room)))]"
        by auto
      with that[of ?room] show ?thesis
        by simp
    qed
    from assms(3) em consider "role_free m"
      | x where "moderatorId room = Some x" "d = To_group x" "m = Player_list_update (players room')"
      by (auto split: option.splits if_splits)
    then show ?thesis
    proof cases
      case 1
      then show ?thesis by (rule rightly_free)
    next
      case 2
      from ok 2(1) have "valid_socket_id x"
        by (simp add: room_ok_def)
      from receives_own_group[OF assms(4) this] assms(5) 2(2) have "c = x"
        by simp
      moreover have "(?code, room') \<in> set (rooms s')"
        unfolding s' by (rule in_update)
      ultimately show ?thesis
        using rightly_list[of ?code room' s' x] md 2(1,3) by simp
    qed
  qed
qed

lemma assign_each_emissions:
  "snd (assign_each ps rs)
     = map (\<lambda>p. (To_group (pid p), Receive_role (role p))) (fst (assign_each ps rs))"
  by (induction ps rs rule: assign_each.induct) (auto split: prod.splits)

lemma start_assign_roles_addressing:
  assumes "wf_state s" and "on_start_assign_roles eng sid payload s = Returns s' em"
    and "(d, m) \<in> set em" and "\<forall>(g, y) \<in> set grp. is_room_code g" and "receives grp d c"
  shows "rightly_addressed s' c m"
proof -
  from on_start_assign_roles_Returns[OF assms(2)]
  consider "em = [] \<or> (\<exists>t. em = [(To_socket sid, Error_msg t)])"
    | roomId roles room where "field payload ''roomId'' = JStr roomId"
        "map_of (rooms s) roomId = Some room" "moderatorId room = Some sid"
        "js_length (field payload ''selectedRoles'')
           = Some (JNum (of_nat (length (players room))))"
        "spread (field payload ''selectedRoles'') = Some roles"
    by blast
  then show ?thesis
  proof cases
    case 1
    with assms(3) have "role_free m"
      by auto
    then show ?thesis by (rule rightly_free)
  next
    case 2
    let ?ps = "fst (assign_each (players room) (fisher_yates (random eng) roles))"
    let ?room = "room\<lparr>players := ?ps, status := Assigned\<rparr>"
    from on_start_assign_roles_dealt[OF 2, of eng] assms(2)
    have s': "rooms s' = AList.update roomId ?room (rooms s)"
      and em: "em = map (\<lambda>p. (To_group (pid p), Receive_role (role p))) ?ps
                    @ [(To_socket sid, Role_summary (buildRoleSummary ?ps)),
                       (To_socket sid, Status_msg msg_assigned)]"
      by (auto simp: assign_each_emissions)
    have room': "(roomId, ?room) \<in> set (rooms s')"
      unfolding s' by (rule in_update)
    from assms(1) have "registry_ok (rooms s)"
      by (simp add: wf_state_def)
    from registry_ok_lookup[OF this 2(2)] have ok: "room_ok room"
      by simp
    from assms(3) em consider "role_free m"
      | "d = To_socket sid" "m = Role_summary (buildRoleSummary ?ps)"
      | p where "p \<in> set ?ps" "d = To_group (pid p)" "m = Receive_role (role p)"
      by auto
    then show ?thesis
    proof cases
      case 1
      then show ?thesis by (rule rightly_free)
    next
      case 2
      from 2(1) assms(5) have "c = sid"
        by (simp add: receives_def)
      with rightly_summary[OF room', of sid] \<open>moderatorId room = Some sid\<close> 2(2) show ?thesis
        by simp
    next
      case 3
      from 3(1) have "pid p \<in> set (map pid ?ps)"
        by simp
      then have "pid p \<in> pid ` set (players room)"
        by (simp add: assign_each_pid)
      with ok have "valid_socket_id (pid p)"
        by (auto simp: room_ok_def)
      from receives_own_group[OF assms(4) this] assms(5) 3(2) have c: "c = pid p"
        by simp
      from 3(1) have "p \<in> set (players ?room)"
        by simp
      from rightly_own_role[OF room' this] c 3(3) show ?thesis
        by simp
    qed
  qed
qed

lemma reset_room_addressing:
  assumes "on_reset_room sid payload s = Returns s' em"
    and "(d, m) \<in> set em" and "receives grp d c"
  shows "rightly_addressed s' c m"
proof -
  from on_reset_room_Returns[OF assms(1)]
  consider "em = []"
    | roomId room where "field payload ''roomId'' = JStr roomId"
        "map_of (rooms s) roomId = Some room" "moderatorId room = Some sid"
    by blast
  then show ?thesis
  proof cases
    case 1
    with assms(2) show ?thesis by simp
  next
    case 2
    let ?ps = "map (\<lambda>p. p\<lparr>role := JNull\<rparr>) (players room)"
    let ?room = "room\<lparr>players := ?ps, status := Waiting\<rparr>"
    from on_reset_room_success[OF 2] assms(1)
    have s': "rooms s' = AList.update roomId ?room (rooms s)"
      and em: "em = [(To_group roomId, Room_reset),
                     (To_socket sid, Player_list_update ?ps),
                     (To_socket sid, Player_count_update (length (players room))),
                     (To_socket sid, Status_msg msg_reset)]"
      by auto
    have room': "(roomId, ?room) \<in> set (rooms s')"
      unfolding s' by (rule in_update)
    from assms(2) em consider "role_free m"
      | "d = To_socket sid" "m = Player_list_update ?ps"
      by auto
    then show ?thesis
    proof cases
      case 1
      then show ?thesis by (rule rightly_free)
    next
      case 2
      from 2(1) assms(3) have "c = sid"
        by (simp add: receives_def)
      with rightly_list[OF room', of sid] \<open>moderatorId room = Some sid\<close> 2(2) show ?thesis
        by simp
    qed
  qed
qed

lemma kick_player_addressing:
  assumes "valid_socket_id sid" and "on_kick_player sid payload s = Returns s' em"
    and "(d, m) \<in> set em" and "\<forall>(g, y) \<in> set grp. is_room_code g" and "receives grp d c"
  shows "rightly_addressed s' c m"
proof -
  from on_kick_player_Returns[OF assms(2)]
  consider "em = []"
    | roomId room where "field payload ''roomId'' = JStr roomId"
        "map_of (rooms s) roomId = Some room" "moderatorId room = Some sid"
    by blast
  then show ?thesis
  proof cases
    case 1
    with assms(3) show ?thesis by simp
  next
    case 2
    let ?ps = "filter (\<lambda>p. JStr (pid p) \<noteq> field payload ''playerId'') (players room)"
    let ?room = "room\<lparr>players := ?ps\<rparr>"
    from on_kick_player_success[OF 2 refl refl] assms(2)
    have s': "rooms s' = AList.update roomId ?room (rooms s)"
      and em: "\<forall>(d, m) \<in> set em. role_free m \<or> (d = To_group sid \<and> m = Player_list_update ?ps)"
      by (auto split: option.splits)
    have room': "(roomId, ?room) \<in> set (rooms s')"
      unfolding s' by (rule in_update)
    from assms(3) em consider "role_free m"
      | "d = To_group sid" "m = Player_list_update ?ps"
      by auto
    then show ?thesis
    proof cases
      case 1
      then show ?thesis by (rule rightly_free)
    next
      case 2
      from receives_own_group[OF assms(4,1)] assms(5) 2(1) have "c = sid"
        by simp
      with rightly_list[OF room', of sid] \<open>moderatorId room = Some sid\<close> 2(2) show ?thesis
        by simp
    qed
  qed
qed

lemma cleanupUser_emission_source:
  "e \<in> set (snd (cleanupUser sid rs))
     \<Longrightarrow> \<exists>(code, room) \<in> set rs. e \<in> set (snd (cleanup_entry sid code room))"
proof (induction rs)
  case Nil
  then show ?case by simp
next
  case (Cons x rs)
  obtain code room where x: "x = (code, room)"
    by (cases x)
  from Cons.prems have "e \<in> set (snd (cleanup_entry sid code room))
                        \<or> e \<in> set (snd (cleanupUser sid rs))"
    unfolding x cleanupUser_Cons_snd by simp
  with Cons.IH x show ?case
    by auto
qed

lemma cleanup_entry_emission:
  assumes "(d, m) \<in> set (snd (cleanup_entry sid code room))"
  shows "role_free m
       \<or> (\<exists>x. moderatorId room = Some x \<and> x \<noteq> sid \<and> x \<noteq> [] \<and> d = To_group x
              \<and> m = Player_list_update (filter (\<lambda>p. pid p \<noteq> sid) (players room)))"
proof (cases "moderatorId room")
  case None
  with assms show ?thesis
    by (auto simp: cleanup_entry_eq Let_def split: if_splits)
next
  case (Some x)
  with assms show ?thesis
    by (cases "x = sid") (auto simp: cleanup_entry_eq Let_def split: if_splits)
qed

lemma disconnect_addressing:
  assumes "wf_state s" and "on_disconnect sid s = Returns s' em"
    and "(d, m) \<in> set em" and "\<forall>(g, y) \<in> set grp. is_room_code g" and "receives grp d c"
  shows "rightly_addressed s' c m"
proof -
  from assms(1) have reg: "registry_ok (rooms s)"
    by (simp add: wf_state_def)
  then have dist: "distinct (map fst (rooms s))"
    by (simp add: registry_ok_def)
  from assms(2) have s': "rooms s' = fst (cleanupUser sid (rooms s))"
    and em: "em = snd (cleanupUser sid (rooms s))"
    by (auto simp: on_disconnect_rooms transport_drop_def)
  from assms(3) em cleanupUser_emission_source[of "(d, m)" sid "rooms s"]
  obtain code room where room: "(code, room) \<in> set (rooms s)"
    and src: "(d, m) \<in> set (snd (cleanup_entry sid code room))"
    by auto
  let ?ps = "filter (\<lambda>p. pid p \<noteq> sid) (players room)"
  let ?room = "room\<lparr>players := ?ps\<rparr>"
  from cleanup_entry_emission[OF src] consider "role_free m"
    | x where "moderatorId room = Some x" "x \<noteq> sid" "x \<noteq> []" "d = To_group x"
        "m = Player_list_update ?ps"
    by blast
  then show ?thesis
  proof cases
    case 1
    then show ?thesis by (rule rightly_free)
  next
    case 2
    from reg room have ok: "room_ok room"
      by (auto simp: registry_ok_def)
    with 2(1) have "valid_socket_id x"
      by (simp add: room_ok_def)
    from receives_own_group[OF assms(4) this] assms(5) 2(4) have c: "c = x"
      by simp
    from 2(1,2,3) have "fst (cleanup_entry sid code room) = Some ?room"
      unfolding cleanup_entry_eq Let_def by (simp add: truthy_def)
    moreover from registry_ok_map_of[OF reg room] have "map_of (rooms s) code = Some room" .
    ultimately have "map_of (rooms s') code = Some ?room"
      using cleanupUser_map_of[OF dist, of sid code] s' by simp
    then have "(code, ?room) \<in> set (rooms s')"
      by (rule map_of_SomeD)
    from rightly_list[OF this, of x] c 2(1,5) show ?thesis
      by simp
  qed
qed

lemma handle_addressing:
  assumes "wf_state s" and "valid_socket_id sid" and "handle eng sid ev s = Returns s' em"
    and "(d, m) \<in> set em" and "\<forall>(g, y) \<in> set grp. is_room_code g" and "receives grp d c"
  shows "rightly_addressed s' c m"
proof (cases ev)
  case Create_room
  with assms show ?thesis
    using create_room_addressing[of eng sid s s' em d m grp c] by simp
next
  case (Join_room payload)
  with assms show ?thesis
    using join_room_addressing[of s eng sid payload s' em d m grp c] by simp
next
  case (Start_assign_roles payload)
  with assms show ?thesis
    using start_assign_roles_addressing[of s eng sid payload s' em d m grp c] by simp
next
  case (Reset_room payload)
  with assms show ?thesis
    using reset_room_addressing[of sid payload s s' em d m grp c] by simp
next
  case (Kick_player payload)
  with assms show ?thesis
    using kick_player_addressing[of sid payload s s' em d m grp c] by simp
next
  case Disconnect
  with assms show ?thesis
    using disconnect_addressing[of s sid s' em d m grp c] by simp
qed

subsection \<open>What a connection is sent does not depend on the roles hidden from it\<close>

lemma blank_fields: "pid (blank c p) = pid p" "name (blank c p) = name p"
  by (simp_all add: blank_def)

lemma blank_own: "pid p = c \<Longrightarrow> blank c p = p"
  by (simp add: blank_def)

lemma blank_role_update: "blank c (p\<lparr>role := JNull\<rparr>) = p\<lparr>role := JNull\<rparr>"
  by (simp add: blank_def)

lemma filter_own_blank:
  "filter (\<lambda>p. pid p = c) (map (blank c) ps) = filter (\<lambda>p. pid p = c) ps"
  by (induction ps) (simp_all add: blank_def)

lemma filter_pid_blank:
  "filter (\<lambda>p. Q (pid p)) (map (blank c) ps) = map (blank c) (filter (\<lambda>p. Q (pid p)) ps)"
  by (induction ps) (simp_all add: blank_fields)

lemma map_blank_eqD:
  assumes "map (blank c) ps1 = map (blank c) ps2"
  shows "map pid ps1 = map pid ps2" and "map name ps1 = map name ps2"
    and "length ps1 = length ps2"
    and "filter (\<lambda>p. pid p = c) ps1 = filter (\<lambda>p. pid p = c) ps2"
proof -
  from assms have "map pid (map (blank c) ps1) = map pid (map (blank c) ps2)"
    by simp
  then show "map pid ps1 = map pid ps2"
    by (simp add: blank_fields comp_def)
  from assms have "map name (map (blank c) ps1) = map name (map (blank c) ps2)"
    by simp
  then show "map name ps1 = map name ps2"
    by (simp add: blank_fields comp_def)
  from assms have "length (map (blank c) ps1) = length (map (blank c) ps2)"
    by simp
  then show "length ps1 = length ps2"
    by simp
  from assms have "filter (\<lambda>p. pid p = c) (map (blank c) ps1)
                   = filter (\<lambda>p. pid p = c) (map (blank c) ps2)"
    by simp
  then show "filter (\<lambda>p. pid p = c) ps1 = filter (\<lambda>p. pid p = c) ps2"
    by (simp add: filter_own_blank)
qed

lemma hide_room_eq_iff:
  "hide_room c r1 = hide_room c r2 \<longleftrightarrow>
     moderatorId r1 = moderatorId r2 \<and> status r1 = status r2
     \<and> (if moderatorId r1 = Some c then players r1 = players r2
         else map (blank c) (players r1) = map (blank c) (players r2))"
  by (cases r1; cases r2) (auto simp: hide_room_def)

lemma hide_room_eqD:
  assumes "hide_room c r1 = hide_room c r2"
  shows "moderatorId r1 = moderatorId r2" and "status r1 = status r2"
    and "map pid (players r1) = map pid (players r2)"
    and "map name (players r1) = map name (players r2)"
    and "length (players r1) = length (players r2)"
    and "filter (\<lambda>p. pid p = c) (players r1) = filter (\<lambda>p. pid p = c) (players r2)"
    and "moderatorId r1 = Some c \<Longrightarrow> r1 = r2"
proof -
  from assms show m: "moderatorId r1 = moderatorId r2" and st: "status r1 = status r2"
    by (simp_all add: hide_room_eq_iff)
  from assms have ps: "map (blank c) (players r1) = map (blank c) (players r2)"
    by (auto simp: hide_room_eq_iff split: if_splits)
  from map_blank_eqD[OF ps]
  show "map pid (players r1) = map pid (players r2)"
    and "map name (players r1) = map name (players r2)"
    and "length (players r1) = length (players r2)"
    and "filter (\<lambda>p. pid p = c) (players r1) = filter (\<lambda>p. pid p = c) (players r2)"
    by simp_all
  show "r1 = r2" if "moderatorId r1 = Some c"
    using that assms m st by (cases r1; cases r2) (simp add: hide_room_eq_iff)
qed

lemma role_update_eq:
  "pid p = pid q \<Longrightarrow> name p = name q \<Longrightarrow> (p::player)\<lparr>role := v\<rparr> = q\<lparr>role := v\<rparr>"
  by (cases p; cases q) simp

lemma role_update_cong:
  "map pid ps1 = map pid ps2 \<Longrightarrow> map name ps1 = map name ps2
     \<Longrightarrow> map (\<lambda>p. p\<lparr>role := v\<rparr>) (ps1::player list) = map (\<lambda>p. p\<lparr>role := v\<rparr>) ps2"
proof (induction ps1 arbitrary: ps2)
  case Nil
  then show ?case by simp
next
  case (Cons p ps1)
  then obtain q qs where ps2: "ps2 = q # qs"
    by (cases ps2) auto
  with Cons.prems have "pid p = pid q" "name p = name q"
    and "map pid ps1 = map pid qs" "map name ps1 = map name qs"
    by simp_all
  with Cons.IH[of qs] ps2 role_update_eq[of p q v] show ?case
    by simp
qed

lemma assign_each_cong:
  "map pid ps1 = map pid ps2 \<Longrightarrow> map name ps1 = map name ps2
     \<Longrightarrow> assign_each ps1 rs = assign_each ps2 rs"
proof (induction ps1 arbitrary: ps2 rs)
  case Nil
  then show ?case by simp
next
  case (Cons p ps1)
  then obtain q qs where ps2: "ps2 = q # qs"
    by (cases ps2) auto
  with Cons.prems have pq: "pid p = pid q" "name p = name q"
    and rest: "map pid ps1 = map pid qs" "map name ps1 = map name qs"
    by simp_all
  from pq have same: "p\<lparr>role := v\<rparr> = q\<lparr>role := v\<rparr>" for v
    by (rule role_update_eq)
  show ?case
  proof (cases rs)
    case Nil
    with Cons.IH[OF rest, of "[]"] ps2 pq same[of JUndefined] show ?thesis
      by (simp split: prod.splits)
  next
    case (Cons r rs')
    with Cons.IH[OF rest, of rs'] ps2 pq same[of r] show ?thesis
      by (simp split: prod.splits)
  qed
qed

lemma hide_room_append:
  assumes "hide_room c r1 = hide_room c r2"
  shows "hide_room c (r1\<lparr>players := players r1 @ [p]\<rparr>)
         = hide_room c (r2\<lparr>players := players r2 @ [p]\<rparr>)"
  using assms unfolding hide_room_eq_iff by (auto split: if_splits)

lemma hide_room_filter:
  assumes "hide_room c r1 = hide_room c r2"
  shows "hide_room c (r1\<lparr>players := filter (\<lambda>p. Q (pid p)) (players r1)\<rparr>)
         = hide_room c (r2\<lparr>players := filter (\<lambda>p. Q (pid p)) (players r2)\<rparr>)"
proof -
  have "map (blank c) (filter (\<lambda>p. Q (pid p)) (players r1))
        = map (blank c) (filter (\<lambda>p. Q (pid p)) (players r2))"
    if "map (blank c) (players r1) = map (blank c) (players r2)"
    using that filter_pid_blank[of Q c "players r1"] filter_pid_blank[of Q c "players r2"]
    by simp
  with assms show ?thesis
    unfolding hide_room_eq_iff by (auto split: if_splits)
qed

lemma hide_rooms_map_of:
  "map_of (hide_rooms c rs) k = map_option (hide_room c) (map_of rs k)"
  by (induction rs) (auto simp: hide_rooms_def)

lemma hide_rooms_update:
  "hide_rooms c (AList.update k v rs) = AList.update k (hide_room c v) (hide_rooms c rs)"
  by (induction rs) (auto simp: hide_rooms_def)

lemma hide_rooms_update_cong:
  assumes "hide_rooms c rs1 = hide_rooms c rs2" and "hide_room c v1 = hide_room c v2"
  shows "hide_rooms c (AList.update k v1 rs1) = hide_rooms c (AList.update k v2 rs2)"
  using assms by (simp add: hide_rooms_update)

lemma hide_rooms_None:
  assumes "hide_rooms c rs1 = hide_rooms c rs2"
  shows "map_of rs1 k = None \<longleftrightarrow> map_of rs2 k = None"
  using hide_rooms_map_of[of c rs1 k] hide_rooms_map_of[of c rs2 k] assms by auto

lemma hide_rooms_Some:
  assumes "hide_rooms c rs1 = hide_rooms c rs2" and "map_of rs1 k = Some r1"
  shows "\<exists>r2. map_of rs2 k = Some r2 \<and> hide_room c r1 = hide_room c r2"
  using hide_rooms_map_of[of c rs1 k] hide_rooms_map_of[of c rs2 k] assms by auto

lemma hide_rooms_has:
  assumes "hide_rooms c rs1 = hide_rooms c rs2"
  shows "has rs1 k = has rs2 k"
  using hide_rooms_None[OF assms, of k] by (simp add: has_def)

lemma hide_eq_iff:
  "hide c s1 = hide c s2 \<longleftrightarrow>
     sockets s1 = sockets s2 \<and> groups s1 = groups s2
     \<and> hide_rooms c (rooms s1) = hide_rooms c (rooms s2)"
  by (cases s1; cases s2) (auto simp: hide_def)

lemma view_Nil: "view c grp [] = []"
  by (simp add: view_def)

lemma view_append: "view c grp (a @ b) = view c grp a @ view c grp b"
  by (simp add: view_def)

lemma view_Cons:
  "view c grp ((d, m) # em) = (if receives grp d c then m # view c grp em else view c grp em)"
  by (simp add: view_def)

lemma receives_socket: "receives grp (To_socket x) c \<longleftrightarrow> c = x"
  by (simp add: receives_def)

lemma receives_own:
  assumes "\<forall>(g, y) \<in> set grp. is_room_code g" and "valid_socket_id x"
  shows "receives grp (To_group x) c \<longleftrightarrow> c = x"
  using receives_own_group[OF assms] by (auto simp: receives_def)

lemma view_set: "m \<in> set (view c grp em) \<longleftrightarrow> (\<exists>d. (d, m) \<in> set em \<and> receives grp d c)"
  by (induction em) (auto simp: view_def)

lemma generateRoomCode_on_cong:
  assumes "\<And>code. has rs1 code = has rs2 code"
  shows "generateRoomCode_on d rs1 rnd k = generateRoomCode_on d rs2 rnd k"
  by (induction d arbitrary: k) (simp_all add: Let_def assms)

lemma create_room_unwinding:
  assumes "hide c s1 = hide c s2"
    and "on_create_room eng sid s1 = Returns s1' em1"
    and "on_create_room eng sid s2 = Returns s2' em2"
  shows "hide c s1' = hide c s2' \<and> view c grp em1 = view c grp em2"
proof -
  let ?room = "\<lparr>moderatorId = Some sid, players = [], status = Waiting\<rparr>"
  from assms(1) have same: "sockets s1 = sockets s2" "groups s1 = groups s2"
    and hr: "hide_rooms c (rooms s1) = hide_rooms c (rooms s2)"
    by (simp_all add: hide_eq_iff)
  from on_create_room_Returns[OF assms(2)] obtain code1 where
    g1: "generateRoomCode_on (stack eng) (rooms s1) (random eng) 0 = Inr code1"
    and s1': "s1' = s1\<lparr>rooms := AList.update code1 ?room (rooms s1),
                        groups := List.insert (code1, sid) (groups s1)\<rparr>"
    and em1: "em1 = [(To_socket sid, Room_created code1),
                     (To_socket sid, Role_assigned Moderator None),
                     (To_socket sid, Player_list_update []),
                     (To_socket sid, Init_state True 0)]"
    by blast
  from on_create_room_Returns[OF assms(3)] obtain code2 where
    g2: "generateRoomCode_on (stack eng) (rooms s2) (random eng) 0 = Inr code2"
    and s2': "s2' = s2\<lparr>rooms := AList.update code2 ?room (rooms s2),
                        groups := List.insert (code2, sid) (groups s2)\<rparr>"
    and em2: "em2 = [(To_socket sid, Room_created code2),
                     (To_socket sid, Role_assigned Moderator None),
                     (To_socket sid, Player_list_update []),
                     (To_socket sid, Init_state True 0)]"
    by blast
  from generateRoomCode_on_cong[of "rooms s1" "rooms s2" "stack eng" "random eng" 0]
    hide_rooms_has[OF hr] g1 g2
  have code: "code1 = code2"
    by simp
  from hide_rooms_update_cong[OF hr refl, of code1 ?room]
  have "hide_rooms c (rooms s1') = hide_rooms c (rooms s2')"
    unfolding s1' s2' code by simp
  with same have "hide c s1' = hide c s2'"
    unfolding hide_eq_iff s1' s2' code by simp
  with em1 em2 code show ?thesis
    by simp
qed

lemma join_view:
  assumes "\<forall>(g, y) \<in> set grp. is_room_code g"
    and "mo = Some c \<Longrightarrow> ps1 = ps2"
    and "length ps1 = length ps2"
    and "\<And>m. mo = Some m \<Longrightarrow> valid_socket_id m"
  shows "view c grp ([(To_socket sid, x),
                      (To_group code, Player_count_update (length ps1))]
                     @ (case mo of
                          None \<Rightarrow> []
                        | Some m \<Rightarrow> if m \<noteq> [] then [(To_group m, Player_list_update ps1)] else [])
                     @ [(To_socket sid, Init_state b (length ps1))])
       = view c grp ([(To_socket sid, x),
                      (To_group code, Player_count_update (length ps2))]
                     @ (case mo of
                          None \<Rightarrow> []
                        | Some m \<Rightarrow> if m \<noteq> [] then [(To_group m, Player_list_update ps2)] else [])
                     @ [(To_socket sid, Init_state b (length ps2))])"
proof (cases mo)
  case None
  with assms(3) show ?thesis
    by simp
next
  case (Some m)
  from receives_own[OF assms(1) assms(4)[OF Some]]
  have own: "receives grp (To_group m) c \<longleftrightarrow> c = m" .
  show ?thesis
  proof (cases "c = m")
    case True
    with Some assms(2) show ?thesis
      by simp
  next
    case False
    with Some own assms(3) show ?thesis
      by (simp add: view_append view_Cons view_Nil)
  qed
qed

lemma join_room_unwinding:
  assumes "wf_state s1" and "\<forall>(g, y) \<in> set grp. is_room_code g"
    and "hide c s1 = hide c s2"
    and "on_join_room eng sid payload s1 = Returns s1' em1"
    and "on_join_room eng sid payload s2 = Returns s2' em2"
  shows "hide c s1' = hide c s2' \<and> view c grp em1 = view c grp em2"
proof -
  from assms(3) have same: "sockets s1 = sockets s2" "groups s1 = groups s2"
    and hr: "hide_rooms c (rooms s1) = hide_rooms c (rooms s2)"
    by (simp_all add: hide_eq_iff)
  from assms(4) obtain roomId where roomId: "field payload ''roomId'' = JStr roomId"
    by (cases "field payload ''roomId''") (auto simp: on_join_room_def split: if_splits)
  note live = field_JStr_not_nullish[OF roomId]
  let ?code = "trim eng (toUpperCase eng roomId)"
  show ?thesis
  proof (cases "map_of (rooms s1) ?code")
    case None
    with hide_rooms_None[OF hr, of ?code] have "map_of (rooms s2) ?code = None"
      by simp
    with None assms(4,5) roomId live have "s1' = s1" "s2' = s2" "em1 = em2"
      by (auto simp: on_join_room_def Let_def)
    with assms(3) show ?thesis
      by simp
  next
    case (Some room1)
    from hide_rooms_Some[OF hr Some] obtain room2 where
      room2: "map_of (rooms s2) ?code = Some room2"
      and hrm: "hide_room c room1 = hide_room c room2"
      by blast
    note eq = hide_room_eqD[OF hrm]
    from assms(1) have "registry_ok (rooms s1)"
      by (simp add: wf_state_def)
    from registry_ok_lookup[OF this Some] have ok: "room_ok room1"
      by simp
    then have valid: "valid_socket_id m" if "moderatorId room1 = Some m" for m
      using that by (simp add: room_ok_def)
    have ids: "pid ` set (players room1) = pid ` set (players room2)"
      using eq(3) by (metis set_map)
    show ?thesis
    proof (cases "sid \<in> pid ` set (players room1)")
      case True
      with ids have True2: "sid \<in> pid ` set (players room2)"
        by simp
      from on_join_room_present[OF roomId Some True] assms(4)
      have s1': "s1' = s1\<lparr>groups := List.insert (?code, sid) (groups s1)\<rparr>"
        and em1: "em1 = [(To_socket sid, Role_assigned Player (Some ?code)),
                         (To_group ?code, Player_count_update (length (players room1)))]
                        @ (case moderatorId room1 of
                             None \<Rightarrow> []
                           | Some m \<Rightarrow> if m \<noteq> []
                                      then [(To_group m, Player_list_update (players room1))]
                                      else [])
                        @ [(To_socket sid,
                            Init_state (truthy (moderatorId room1)) (length (players room1)))]"
        by simp_all
      from on_join_room_present[OF roomId room2 True2] assms(5) eq(1)
      have s2': "s2' = s2\<lparr>groups := List.insert (?code, sid) (groups s2)\<rparr>"
        and em2: "em2 = [(To_socket sid, Role_assigned Player (Some ?code)),
                         (To_group ?code, Player_count_update (length (players room2)))]
                        @ (case moderatorId room1 of
                             None \<Rightarrow> []
                           | Some m \<Rightarrow> if m \<noteq> []
                                      then [(To_group m, Player_list_update (players room2))]
                                      else [])
                        @ [(To_socket sid,
                            Init_state (truthy (moderatorId room1)) (length (players room2)))]"
        by simp_all
      have "hide c s1' = hide c s2'"
        using same hr unfolding hide_eq_iff s1' s2' by simp
      moreover have "view c grp em1 = view c grp em2"
        unfolding em1 em2
        using eq(7) by (intro join_view[OF assms(2) _ eq(5) valid]) auto
      ultimately show ?thesis
        by simp
    next
      case False
      with ids have False2: "sid \<notin> pid ` set (players room2)"
        by simp
      let ?p = "\<lparr>pid = sid,
                 name = (if js_truthy (field payload ''name'') then field payload ''name''
                         else JStr (default_name sid)),
                 role = JNull\<rparr>"
      let ?r1 = "room1\<lparr>players := players room1 @ [?p]\<rparr>"
      let ?r2 = "room2\<lparr>players := players room2 @ [?p]\<rparr>"
      from on_join_room_absent[OF roomId Some False refl] assms(4)
      have s1': "s1' = s1\<lparr>rooms := AList.update ?code ?r1 (rooms s1),
                          groups := List.insert (?code, sid) (groups s1)\<rparr>"
        and em1: "em1 = [(To_socket sid, Role_assigned Player (Some ?code)),
                         (To_group ?code, Player_count_update (length (players ?r1)))]
                        @ (case moderatorId room1 of
                             None \<Rightarrow> []
                           | Some m \<Rightarrow> if m \<noteq> []
                                      then [(To_group m, Player_list_update (players ?r1))]
                                      else [])
                        @ [(To_socket sid,
                            Init_state (truthy (moderatorId room1)) (length (players ?r1)))]"
        by simp_all
      from on_join_room_absent[OF roomId room2 False2 refl] assms(5) eq(1)
      have s2': "s2' = s2\<lparr>rooms := AList.update ?code ?r2 (rooms s2),
                          groups := List.insert (?code, sid) (groups s2)\<rparr>"
        and em2: "em2 = [(To_socket sid, Role_assigned Player (Some ?code)),
                         (To_group ?code, Player_count_update (length (players ?r2)))]
                        @ (case moderatorId room1 of
                             None \<Rightarrow> []
                           | Some m \<Rightarrow> if m \<noteq> []
                                      then [(To_group m, Player_list_update (players ?r2))]
                                      else [])
                        @ [(To_socket sid,
                            Init_state (truthy (moderatorId room1)) (length (players ?r2)))]"
        by simp_all
      from hide_room_append[OF hrm, of ?p] have hrm': "hide_room c ?r1 = hide_room c ?r2" .
      from hide_rooms_update_cong[OF hr hrm', of ?code]
      have "hide c s1' = hide c s2'"
        using same unfolding hide_eq_iff s1' s2' by simp
      moreover have "view c grp em1 = view c grp em2"
        unfolding em1 em2
        using eq(7) eq(5) by (intro join_view[OF assms(2) _ _ valid]) auto
      ultimately show ?thesis
        by simp
    qed
  qed
qed

lemma rooms_get_SomeD:
  "rooms_get rs v = Some r \<Longrightarrow> \<exists>k. v = JStr k \<and> map_of rs k = Some r"
  by (cases v) (simp_all add: rooms_get_def)

lemma hide_rooms_get_None:
  assumes "hide_rooms c rs1 = hide_rooms c rs2"
  shows "rooms_get rs1 v = None \<longleftrightarrow> rooms_get rs2 v = None"
  using hide_rooms_None[OF assms] by (cases v) (simp_all add: rooms_get_def)

lemma on_start_assign_roles_silent:
  assumes "\<not> nullish payload"
    and "case rooms_get (rooms s) (field payload ''roomId'') of
           None \<Rightarrow> True
         | Some room \<Rightarrow> moderatorId room \<noteq> Some sid"
  shows "on_start_assign_roles eng sid payload s = Returns s []"
  using assms
  by (cases "field payload ''roomId''")
     (auto simp: on_start_assign_roles_def rooms_get_def split: option.splits)

lemma on_start_assign_roles_unmatched:
  assumes "field payload ''roomId'' = JStr roomId"
    and "map_of (rooms s) roomId = Some room"
    and "moderatorId room = Some sid"
    and "js_length (field payload ''selectedRoles'') = Some len"
    and "len \<noteq> JNum (of_nat (length (players room)))"
  shows "on_start_assign_roles eng sid payload s =
         Returns s [(To_socket sid,
                     Error_msg (msg_mismatch_text
                       (length_text eng (field payload ''selectedRoles''))
                       (show_nat (length (players room)))))]"
  using assms field_JStr_not_nullish[OF assms(1)]
  by (simp add: on_start_assign_roles_def)

lemma on_start_assign_roles_guarded:
  assumes "on_start_assign_roles eng sid payload s = Returns s' em"
    and "field payload ''roomId'' = JStr roomId"
    and "map_of (rooms s) roomId = Some room"
    and "moderatorId room = Some sid"
  shows "\<exists>len. js_length (field payload ''selectedRoles'') = Some len
           \<and> (len = JNum (of_nat (length (players room)))
                \<longrightarrow> (\<exists>roles. spread (field payload ''selectedRoles'') = Some roles))"
proof -
  from assms field_JStr_not_nullish[OF assms(2)]
  obtain len where len: "js_length (field payload ''selectedRoles'') = Some len"
    by (cases "js_length (field payload ''selectedRoles'')")
       (auto simp: on_start_assign_roles_def)
  moreover have "\<exists>roles. spread (field payload ''selectedRoles'') = Some roles"
    if "len = JNum (of_nat (length (players room)))"
    using assms field_JStr_not_nullish[OF assms(2)] len that
    by (cases "spread (field payload ''selectedRoles'')")
       (auto simp: on_start_assign_roles_def)
  ultimately show ?thesis
    by blast
qed

lemma view_deal:
  assumes "\<forall>(g, y) \<in> set grp. is_room_code g"
    and "\<forall>p \<in> set ps. valid_socket_id (pid p)"
  shows "view c grp (map (\<lambda>p. (To_group (pid p), Receive_role (role p))) ps)
         = map (\<lambda>p. Receive_role (role p)) (filter (\<lambda>p. pid p = c) ps)"
  using assms(2)
proof (induction ps)
  case Nil
  show ?case by (simp add: view_Nil)
next
  case (Cons p ps)
  from Cons.prems have "valid_socket_id (pid p)"
    by simp
  from receives_own[OF assms(1) this] have "receives grp (To_group (pid p)) c \<longleftrightarrow> c = pid p" .
  with Cons show ?case
    by (auto simp: view_Cons)
qed

lemma deal_view:
  assumes "\<forall>(g, y) \<in> set grp. is_room_code g"
    and "\<forall>p \<in> set ps1. valid_socket_id (pid p)"
    and "\<forall>p \<in> set ps2. valid_socket_id (pid p)"
    and "filter (\<lambda>p. pid p = c) ps1 = filter (\<lambda>p. pid p = c) ps2"
    and "c = sid \<Longrightarrow> ps1 = ps2"
  shows "view c grp (map (\<lambda>p. (To_group (pid p), Receive_role (role p))) ps1
                     @ [(To_socket sid, Role_summary (buildRoleSummary ps1)),
                        (To_socket sid, Status_msg msg_assigned)])
       = view c grp (map (\<lambda>p. (To_group (pid p), Receive_role (role p))) ps2
                     @ [(To_socket sid, Role_summary (buildRoleSummary ps2)),
                        (To_socket sid, Status_msg msg_assigned)])"
  using assms(4,5)
  by (simp add: view_append view_deal[OF assms(1,2)] view_deal[OF assms(1,3)] view_Cons view_Nil
      receives_socket)

lemma assign_each_valid:
  assumes "room_ok room"
  shows "\<forall>p \<in> set (fst (assign_each (players room) rs)). valid_socket_id (pid p)"
proof
  fix p assume "p \<in> set (fst (assign_each (players room) rs))"
  then have "pid p \<in> set (map pid (fst (assign_each (players room) rs)))"
    by simp
  then have "pid p \<in> pid ` set (players room)"
    by (simp add: assign_each_pid)
  with assms show "valid_socket_id (pid p)"
    by (auto simp: room_ok_def)
qed

lemma start_assign_roles_unwinding:
  assumes wf1: "wf_state s1" and wf2: "wf_state s2"
    and names: "\<forall>(g, y) \<in> set grp. is_room_code g"
    and h: "hide c s1 = hide c s2"
    and rid: "field p1 ''roomId'' = field p2 ''roomId''"
    and sel: "(p1 = p2 \<and> eng1 = eng2)
            \<or> (\<exists>roles1 roles2. field p1 ''selectedRoles'' = JArr roles1
                  \<and> field p2 ''selectedRoles'' = JArr roles2
                  \<and> length roles1 = length roles2)"
    and r1: "on_start_assign_roles eng1 sid p1 s1 = Returns s1' em1"
    and r2: "on_start_assign_roles eng2 sid p2 s2 = Returns s2' em2"
  shows "(p1 = p2 \<and> eng1 = eng2 \<longrightarrow> hide c s1' = hide c s2')
       \<and> (hide c s1' = hide c s2' \<longrightarrow> view c grp em1 = view c grp em2)"
proof -
  from h have same: "sockets s1 = sockets s2" "groups s1 = groups s2"
    and hr: "hide_rooms c (rooms s1) = hide_rooms c (rooms s2)"
    by (simp_all add: hide_eq_iff)
  from r1 have n1: "\<not> nullish p1"
    by (auto simp: on_start_assign_roles_def split: if_splits)
  from r2 have n2: "\<not> nullish p2"
    by (auto simp: on_start_assign_roles_def split: if_splits)
  show ?thesis
  proof (cases "rooms_get (rooms s1) (field p1 ''roomId'')")
    case None
    with hide_rooms_get_None[OF hr] rid
    have None2: "rooms_get (rooms s2) (field p2 ''roomId'') = None"
      by simp
    from on_start_assign_roles_silent[OF n1, where s = s1 and sid = sid and eng = eng1] None r1
    have "s1' = s1" "em1 = []"
      by simp_all
    moreover from on_start_assign_roles_silent[OF n2, where s = s2 and sid = sid and eng = eng2] None2 r2
    have "s2' = s2" "em2 = []"
      by simp_all
    ultimately show ?thesis
      using h by simp
  next
    case (Some room1)
    from rooms_get_SomeD[OF Some] obtain roomId where
      f1: "field p1 ''roomId'' = JStr roomId" and m1: "map_of (rooms s1) roomId = Some room1"
      by blast
    from rid f1 have f2: "field p2 ''roomId'' = JStr roomId"
      by simp
    from hide_rooms_Some[OF hr m1] obtain room2 where
      m2: "map_of (rooms s2) roomId = Some room2"
      and hrm: "hide_room c room1 = hide_room c room2"
      by blast
    note eq = hide_room_eqD[OF hrm]
    show ?thesis
    proof (cases "moderatorId room1 = Some sid")
      case False
      with eq(1) have False2: "moderatorId room2 \<noteq> Some sid"
        by simp
      from on_start_assign_roles_silent[OF n1, where s = s1 and sid = sid and eng = eng1] f1 m1 False r1
      have "s1' = s1" "em1 = []"
        by (simp_all add: rooms_get_def)
      moreover from on_start_assign_roles_silent[OF n2, where s = s2 and sid = sid and eng = eng2] f2 m2 False2 r2
      have "s2' = s2" "em2 = []"
        by (simp_all add: rooms_get_def)
      ultimately show ?thesis
        using h by simp
    next
      case True
      with eq(1) have mod2: "moderatorId room2 = Some sid"
        by simp
      from eq(5) have n: "length (players room2) = length (players room1)"
        by simp
      from on_start_assign_roles_guarded[OF r1 f1 m1 True] obtain len1 where
        l1: "js_length (field p1 ''selectedRoles'') = Some len1"
        and sp1: "len1 = JNum (of_nat (length (players room1)))
                    \<longrightarrow> (\<exists>roles. spread (field p1 ''selectedRoles'') = Some roles)"
        by blast
      from on_start_assign_roles_guarded[OF r2 f2 m2 mod2] obtain len2 where
        l2: "js_length (field p2 ''selectedRoles'') = Some len2"
        and sp2: "len2 = JNum (of_nat (length (players room2)))
                    \<longrightarrow> (\<exists>roles. spread (field p2 ''selectedRoles'') = Some roles)"
        by blast
      from sel l1 l2 have lens: "len1 = len2"
        by (auto simp: js_length_def)
      from sel have texts: "length_text eng1 (field p1 ''selectedRoles'')
                            = length_text eng2 (field p2 ''selectedRoles'')"
        by (auto simp: length_text_def)
      show ?thesis
      proof (cases "len1 = JNum (of_nat (length (players room1)))")
        case False
        with lens n have False2: "len2 \<noteq> JNum (of_nat (length (players room2)))"
          by simp
        from on_start_assign_roles_unmatched[OF f1 m1 True l1 False, where eng = eng1] r1
        have "s1' = s1"
          and "em1 = [(To_socket sid,
                     Error_msg (msg_mismatch_text
                       (length_text eng1 (field p1 ''selectedRoles''))
                       (show_nat (length (players room1)))))]"
          by simp_all
        moreover from on_start_assign_roles_unmatched[OF f2 m2 mod2 l2 False2, where eng = eng2] r2
        have "s2' = s2"
          and "em2 = [(To_socket sid,
                     Error_msg (msg_mismatch_text
                       (length_text eng2 (field p2 ''selectedRoles''))
                       (show_nat (length (players room2)))))]"
          by simp_all
        ultimately show ?thesis
          using h texts n by simp
      next
        case matched: True
        with sp1 obtain roles1 where
          roles1: "spread (field p1 ''selectedRoles'') = Some roles1"
          by blast
        from matched lens n sp2 obtain roles2 where
          roles2: "spread (field p2 ''selectedRoles'') = Some roles2"
          by auto
        let ?ps1 = "fst (assign_each (players room1) (fisher_yates (random eng1) roles1))"
        let ?ps2 = "fst (assign_each (players room2) (fisher_yates (random eng2) roles2))"
        let ?r1 = "room1\<lparr>players := ?ps1, status := Assigned\<rparr>"
        let ?r2 = "room2\<lparr>players := ?ps2, status := Assigned\<rparr>"
        from l1 matched have l1': "js_length (field p1 ''selectedRoles'')
                                   = Some (JNum (of_nat (length (players room1))))"
          by simp
        from l2 matched lens n have l2': "js_length (field p2 ''selectedRoles'')
                                   = Some (JNum (of_nat (length (players room2))))"
          by simp
        from on_start_assign_roles_dealt[OF f1 m1 True l1' roles1, where eng = eng1] r1
        have s1': "s1' = s1\<lparr>rooms := AList.update roomId ?r1 (rooms s1)\<rparr>"
          and em1: "em1 = map (\<lambda>p. (To_group (pid p), Receive_role (role p))) ?ps1
                          @ [(To_socket sid, Role_summary (buildRoleSummary ?ps1)),
                             (To_socket sid, Status_msg msg_assigned)]"
          by (simp_all add: assign_each_emissions)
        from on_start_assign_roles_dealt[OF f2 m2 mod2 l2' roles2, where eng = eng2] r2
        have s2': "s2' = s2\<lparr>rooms := AList.update roomId ?r2 (rooms s2)\<rparr>"
          and em2: "em2 = map (\<lambda>p. (To_group (pid p), Receive_role (role p))) ?ps2
                          @ [(To_socket sid, Role_summary (buildRoleSummary ?ps2)),
                             (To_socket sid, Status_msg msg_assigned)]"
          by (simp_all add: assign_each_emissions)
        have step: "hide c s1' = hide c s2'" if "p1 = p2 \<and> eng1 = eng2"
        proof -
          from that roles1 roles2 have "roles1 = roles2" and "eng1 = eng2"
            by simp_all
          with assign_each_cong[OF eq(3,4)] have "?ps1 = ?ps2"
            by simp
          with eq(1,2) have "hide_room c ?r1 = hide_room c ?r2"
            by (simp add: hide_room_eq_iff)
          from hide_rooms_update_cong[OF hr this, of roomId] same show ?thesis
            unfolding hide_eq_iff s1' s2' by simp
        qed
        have seen: "view c grp em1 = view c grp em2" if post: "hide c s1' = hide c s2'"
        proof -
          from post have hr': "hide_rooms c (rooms s1') = hide_rooms c (rooms s2')"
            by (simp add: hide_eq_iff)
          have "map_of (rooms s1') roomId = Some ?r1" "map_of (rooms s2') roomId = Some ?r2"
            unfolding s1' s2' by (simp_all add: update_conv')
          with hide_rooms_Some[OF hr', of roomId ?r1]
          have hrm': "hide_room c ?r1 = hide_room c ?r2"
            by auto
          note eq' = hide_room_eqD[OF hrm']
          from eq'(6) have own: "filter (\<lambda>p. pid p = c) ?ps1 = filter (\<lambda>p. pid p = c) ?ps2"
            by simp
          have all: "?ps1 = ?ps2" if "c = sid"
          proof -
            from that True have "moderatorId ?r1 = Some c"
              by simp
            from eq'(7)[OF this] have "players ?r1 = players ?r2"
              by simp
            then show ?thesis
              by simp
          qed
          from wf1 m1 have ok1: "room_ok room1"
            using registry_ok_lookup[of "rooms s1" roomId room1] by (simp add: wf_state_def)
          from wf2 m2 have ok2: "room_ok room2"
            using registry_ok_lookup[of "rooms s2" roomId room2] by (simp add: wf_state_def)
          show ?thesis
            unfolding em1 em2
            by (rule deal_view[OF names assign_each_valid[OF ok1] assign_each_valid[OF ok2]
                  own all])
        qed
        from step seen show ?thesis
          by blast
      qed
    qed
  qed
qed

lemma reset_room_unwinding:
  assumes "hide c s1 = hide c s2"
    and "on_reset_room sid payload s1 = Returns s1' em1"
    and "on_reset_room sid payload s2 = Returns s2' em2"
  shows "hide c s1' = hide c s2' \<and> view c grp em1 = view c grp em2"
proof -
  from assms(1) have same: "sockets s1 = sockets s2" "groups s1 = groups s2"
    and hr: "hide_rooms c (rooms s1) = hide_rooms c (rooms s2)"
    by (simp_all add: hide_eq_iff)
  have success: "hide c t1' = hide c t2' \<and> view c grp e1 = view c grp e2"
    if "hide_rooms c (rooms t1) = hide_rooms c (rooms t2)"
      and "sockets t1 = sockets t2" and "groups t1 = groups t2"
      and "field payload ''roomId'' = JStr roomId"
      and "map_of (rooms t1) roomId = Some room1" and "moderatorId room1 = Some sid"
      and "on_reset_room sid payload t1 = Returns t1' e1"
      and "on_reset_room sid payload t2 = Returns t2' e2"
    for t1 t2 t1' t2' e1 e2 roomId room1
  proof -
    from hide_rooms_Some[OF that(1,5)] obtain room2 where
      m2: "map_of (rooms t2) roomId = Some room2"
      and hrm: "hide_room c room1 = hide_room c room2"
      by blast
    note eq = hide_room_eqD[OF hrm]
    from eq(1) that(6) have mod2: "moderatorId room2 = Some sid"
      by simp
    let ?ps1 = "map (\<lambda>p. p\<lparr>role := JNull\<rparr>) (players room1)"
    let ?ps2 = "map (\<lambda>p. p\<lparr>role := JNull\<rparr>) (players room2)"
    from role_update_cong[OF eq(3,4)] have ps: "?ps1 = ?ps2" .
    from on_reset_room_success[OF that(4,5,6)] that(7)
    have t1': "t1' = t1\<lparr>rooms := AList.update roomId
                         (room1\<lparr>players := ?ps1, status := Waiting\<rparr>) (rooms t1)\<rparr>"
      and e1: "e1 = [(To_group roomId, Room_reset),
                     (To_socket sid, Player_list_update ?ps1),
                     (To_socket sid, Player_count_update (length (players room1))),
                     (To_socket sid, Status_msg msg_reset)]"
      by simp_all
    from on_reset_room_success[OF that(4) m2 mod2] that(8)
    have t2': "t2' = t2\<lparr>rooms := AList.update roomId
                         (room2\<lparr>players := ?ps2, status := Waiting\<rparr>) (rooms t2)\<rparr>"
      and e2: "e2 = [(To_group roomId, Room_reset),
                     (To_socket sid, Player_list_update ?ps2),
                     (To_socket sid, Player_count_update (length (players room2))),
                     (To_socket sid, Status_msg msg_reset)]"
      by simp_all
    from ps eq(1) have "hide_room c (room1\<lparr>players := ?ps1, status := Waiting\<rparr>)
                        = hide_room c (room2\<lparr>players := ?ps2, status := Waiting\<rparr>)"
      by (simp add: hide_room_eq_iff)
    from hide_rooms_update_cong[OF that(1) this, of roomId] that(2,3)
    have "hide c t1' = hide c t2'"
      unfolding hide_eq_iff t1' t2' by simp
    moreover from ps eq(5) have "e1 = e2"
      unfolding e1 e2 by simp
    ultimately show ?thesis
      by simp
  qed
  from on_reset_room_Returns[OF assms(2)] on_reset_room_Returns[OF assms(3)]
  consider "s1' = s1" "em1 = []" "s2' = s2" "em2 = []"
    | roomId room1 where "field payload ''roomId'' = JStr roomId"
        "map_of (rooms s1) roomId = Some room1" "moderatorId room1 = Some sid"
    | roomId room2 where "field payload ''roomId'' = JStr roomId"
        "map_of (rooms s2) roomId = Some room2" "moderatorId room2 = Some sid"
    by blast
  then show ?thesis
  proof cases
    case 1
    with assms(1) show ?thesis
      by simp
  next
    case 2
    from success[OF hr same 2 assms(2,3)] show ?thesis .
  next
    case 3
    from success[OF hr[symmetric] same[symmetric] 3 assms(3,2)] show ?thesis
      by simp
  qed
qed

lemma kick_player_unwinding:
  assumes "valid_socket_id sid" and "\<forall>(g, y) \<in> set grp. is_room_code g"
    and "hide c s1 = hide c s2"
    and "on_kick_player sid payload s1 = Returns s1' em1"
    and "on_kick_player sid payload s2 = Returns s2' em2"
  shows "hide c s1' = hide c s2' \<and> view c grp em1 = view c grp em2"
proof -
  from assms(3) have same: "sockets s1 = sockets s2" "groups s1 = groups s2"
    and hr: "hide_rooms c (rooms s1) = hide_rooms c (rooms s2)"
    by (simp_all add: hide_eq_iff)
  from receives_own[OF assms(2,1)] have own: "receives grp (To_group sid) c \<longleftrightarrow> c = sid" .
  have success: "hide c t1' = hide c t2' \<and> view c grp e1 = view c grp e2"
    if "hide_rooms c (rooms t1) = hide_rooms c (rooms t2)"
      and "sockets t1 = sockets t2" and "groups t1 = groups t2"
      and "field payload ''roomId'' = JStr roomId"
      and "map_of (rooms t1) roomId = Some room1" and "moderatorId room1 = Some sid"
      and "on_kick_player sid payload t1 = Returns t1' e1"
      and "on_kick_player sid payload t2 = Returns t2' e2"
    for t1 t2 t1' t2' e1 e2 roomId room1
  proof -
    from hide_rooms_Some[OF that(1,5)] obtain room2 where
      m2: "map_of (rooms t2) roomId = Some room2"
      and hrm: "hide_room c room1 = hide_room c room2"
      by blast
    from hide_room_eqD(1)[OF hrm] that(6) have mod2: "moderatorId room2 = Some sid"
      by simp
    let ?ps1 = "filter (\<lambda>p. JStr (pid p) \<noteq> field payload ''playerId'') (players room1)"
    let ?ps2 = "filter (\<lambda>p. JStr (pid p) \<noteq> field payload ''playerId'') (players room2)"
    define target where "target =
      (case field payload ''playerId'' of
         JStr t \<Rightarrow> if t \<in> set (sockets t1) then Some t else None
       | _ \<Rightarrow> None)"
    have target2: "target =
      (case field payload ''playerId'' of
         JStr t \<Rightarrow> if t \<in> set (sockets t2) then Some t else None
       | _ \<Rightarrow> None)"
      unfolding target_def that(2) ..
    let ?tail = "case target of
                   None \<Rightarrow> []
                 | Some t \<Rightarrow> [(To_socket t, Kicked), (To_socket t, Error_msg msg_kicked)]"
    from on_kick_player_success[OF that(4,5,6) target_def refl] that(7)
    have t1': "t1' = t1\<lparr>rooms := AList.update roomId (room1\<lparr>players := ?ps1\<rparr>) (rooms t1),
                        groups := (case target of
                                     None \<Rightarrow> groups t1
                                   | Some t \<Rightarrow> removeAll (roomId, t) (groups t1))\<rparr>"
      and e1: "e1 = [(To_group roomId, Player_count_update (length ?ps1)),
                     (To_group sid, Player_list_update ?ps1)] @ ?tail"
      by simp_all
    from on_kick_player_success[OF that(4) m2 mod2 target2 refl] that(8)
    have t2': "t2' = t2\<lparr>rooms := AList.update roomId (room2\<lparr>players := ?ps2\<rparr>) (rooms t2),
                        groups := (case target of
                                     None \<Rightarrow> groups t2
                                   | Some t \<Rightarrow> removeAll (roomId, t) (groups t2))\<rparr>"
      and e2: "e2 = [(To_group roomId, Player_count_update (length ?ps2)),
                     (To_group sid, Player_list_update ?ps2)] @ ?tail"
      by simp_all
    from hide_room_filter[OF hrm, of "\<lambda>x. JStr x \<noteq> field payload ''playerId''"]
    have hrm': "hide_room c (room1\<lparr>players := ?ps1\<rparr>) = hide_room c (room2\<lparr>players := ?ps2\<rparr>)" .
    note eq' = hide_room_eqD[OF hrm']
    from hide_rooms_update_cong[OF that(1) hrm', of roomId] that(2,3)
    have "hide c t1' = hide c t2'"
      unfolding hide_eq_iff t1' t2' by (simp split: option.splits)
    moreover have "view c grp e1 = view c grp e2"
    proof (cases "c = sid")
      case True
      with that(6) have "moderatorId (room1\<lparr>players := ?ps1\<rparr>) = Some c"
        by simp
      from eq'(7)[OF this] have "players (room1\<lparr>players := ?ps1\<rparr>) = players (room2\<lparr>players := ?ps2\<rparr>)"
        by simp
      then have "?ps1 = ?ps2"
        by simp
      then show ?thesis
        unfolding e1 e2 by simp
    next
      case False
      with own eq'(5) show ?thesis
        unfolding e1 e2 by (simp add: view_append view_Cons view_Nil)
    qed
    ultimately show ?thesis
      by simp
  qed
  from on_kick_player_Returns[OF assms(4)] on_kick_player_Returns[OF assms(5)]
  consider "s1' = s1" "em1 = []" "s2' = s2" "em2 = []"
    | roomId room1 where "field payload ''roomId'' = JStr roomId"
        "map_of (rooms s1) roomId = Some room1" "moderatorId room1 = Some sid"
    | roomId room2 where "field payload ''roomId'' = JStr roomId"
        "map_of (rooms s2) roomId = Some room2" "moderatorId room2 = Some sid"
    by blast
  then show ?thesis
  proof cases
    case 1
    with assms(3) show ?thesis
      by simp
  next
    case 2
    from success[OF hr same 2 assms(4,5)] show ?thesis .
  next
    case 3
    from success[OF hr[symmetric] same[symmetric] 3 assms(5,4)] show ?thesis
      by simp
  qed
qed

lemma cleanup_entry_unwinding:
  assumes names: "\<forall>(g, y) \<in> set grp. is_room_code g"
    and hrm: "hide_room c r1 = hide_room c r2"
    and ok: "room_ok r1"
  shows "map_option (hide_room c) (fst (cleanup_entry sid k r1))
         = map_option (hide_room c) (fst (cleanup_entry sid k r2))
       \<and> view c grp (snd (cleanup_entry sid k r1)) = view c grp (snd (cleanup_entry sid k r2))"
proof -
  note eq = hide_room_eqD[OF hrm]
  define mo where "mo = (if moderatorId r1 = Some sid then None else moderatorId r1)"
  define q1 where "q1 = r1\<lparr>moderatorId := mo, players := filter (\<lambda>p. pid p \<noteq> sid) (players r1)\<rparr>"
  define q2 where "q2 = r2\<lparr>moderatorId := mo, players := filter (\<lambda>p. pid p \<noteq> sid) (players r2)\<rparr>"
  have hq: "hide_room c q1 = hide_room c q2"
  proof (cases "moderatorId r1 = Some c")
    case True
    from eq(7)[OF True] show ?thesis
      by (simp add: q1_def q2_def)
  next
    case False
    with hrm have "map (blank c) (players r1) = map (blank c) (players r2)"
      by (simp add: hide_room_eq_iff)
    then have "map (blank c) (filter (\<lambda>p. pid p \<noteq> sid) (players r1))
               = map (blank c) (filter (\<lambda>p. pid p \<noteq> sid) (players r2))"
      using filter_pid_blank[of "\<lambda>x. x \<noteq> sid" c "players r1"]
        filter_pid_blank[of "\<lambda>x. x \<noteq> sid" c "players r2"]
      by simp
    moreover from False have "mo \<noteq> Some c"
      by (simp add: mo_def)
    ultimately show ?thesis
      using eq(2) by (simp add: hide_room_eq_iff q1_def q2_def)
  qed
  note eq' = hide_room_eqD[OF hq]
  have mq: "moderatorId q1 = mo" "moderatorId q2 = mo"
    by (simp_all add: q1_def q2_def)
  have member: "sid \<in> pid ` set (players r1) \<longleftrightarrow> sid \<in> pid ` set (players r2)"
    using eq(3) by (metis set_map)
  have e1: "cleanup_entry sid k r1 =
     (if players q1 = [] \<and> \<not> truthy (moderatorId q1) then None else Some q1,
      (if moderatorId r1 = Some sid then [(To_group k, Mod_status_update False)] else [])
      @ (if sid \<in> pid ` set (players r1)
         then (To_group k, Player_count_update (length (players q1)))
              # (case moderatorId q1 of
                   None \<Rightarrow> []
                 | Some m \<Rightarrow> if m \<noteq> [] then [(To_group m, Player_list_update (players q1))]
                            else [])
         else []))"
    unfolding cleanup_entry_eq Let_def q1_def mo_def ..
  have e2: "cleanup_entry sid k r2 =
     (if players q2 = [] \<and> \<not> truthy (moderatorId q2) then None else Some q2,
      (if moderatorId r2 = Some sid then [(To_group k, Mod_status_update False)] else [])
      @ (if sid \<in> pid ` set (players r2)
         then (To_group k, Player_count_update (length (players q2)))
              # (case moderatorId q2 of
                   None \<Rightarrow> []
                 | Some m \<Rightarrow> if m \<noteq> [] then [(To_group m, Player_list_update (players q2))]
                            else [])
         else []))"
    unfolding cleanup_entry_eq Let_def q2_def mo_def eq(1) ..
  from eq'(5) have empty: "players q1 = [] \<longleftrightarrow> players q2 = []"
    by (metis length_0_conv)
  have kept: "map_option (hide_room c) (fst (cleanup_entry sid k r1))
              = map_option (hide_room c) (fst (cleanup_entry sid k r2))"
    unfolding e1 e2 using hq empty mq by simp
  have listed: "view c grp [(To_group m, Player_list_update (players q1))]
                = view c grp [(To_group m, Player_list_update (players q2))]"
    if "mo = Some m" for m
  proof -
    from that have "moderatorId r1 = Some m"
      by (simp add: mo_def split: if_splits)
    with ok have "valid_socket_id m"
      by (simp add: room_ok_def)
    from receives_own[OF names this] have own: "receives grp (To_group m) c \<longleftrightarrow> c = m" .
    show ?thesis
    proof (cases "c = m")
      case True
      with that mq have "moderatorId q1 = Some c"
        by simp
      from eq'(7)[OF this] show ?thesis
        by simp
    next
      case False
      with own show ?thesis
        by (simp add: view_Cons view_Nil)
    qed
  qed
  have "view c grp (snd (cleanup_entry sid k r1)) = view c grp (snd (cleanup_entry sid k r2))"
  proof (cases mo)
    case None
    with eq'(5) eq(1) member mq show ?thesis
      unfolding e1 e2 by (simp add: view_append view_Cons view_Nil)
  next
    case (Some m)
    with eq'(5) eq(1) member mq listed[OF Some] show ?thesis
      unfolding e1 e2 by (simp add: view_append view_Cons view_Nil)
  qed
  with kept show ?thesis
    by simp
qed

lemma cleanupUser_unwinding:
  assumes names: "\<forall>(g, y) \<in> set grp. is_room_code g"
  shows "hide_rooms c rs1 = hide_rooms c rs2 \<Longrightarrow> \<forall>(k, r) \<in> set rs1. room_ok r
     \<Longrightarrow> hide_rooms c (fst (cleanupUser sid rs1)) = hide_rooms c (fst (cleanupUser sid rs2))
         \<and> view c grp (snd (cleanupUser sid rs1)) = view c grp (snd (cleanupUser sid rs2))"
proof (induction rs1 arbitrary: rs2)
  case Nil
  then have "rs2 = []"
    by (simp add: hide_rooms_def)
  then show ?case
    by simp
next
  case (Cons x rs1)
  obtain k r1 where x: "x = (k, r1)"
    by (cases x)
  from Cons.prems(1) x obtain r2 rs2' where rs2: "rs2 = (k, r2) # rs2'"
    and hrm: "hide_room c r1 = hide_room c r2"
    and rest: "hide_rooms c rs1 = hide_rooms c rs2'"
    by (cases rs2) (auto simp: hide_rooms_def)
  from Cons.prems(2) x have ok: "room_ok r1" and oks: "\<forall>(k, r) \<in> set rs1. room_ok r"
    by simp_all
  from cleanup_entry_unwinding[OF names hrm ok, of sid k]
  have kept: "map_option (hide_room c) (fst (cleanup_entry sid k r1))
              = map_option (hide_room c) (fst (cleanup_entry sid k r2))"
    and seen: "view c grp (snd (cleanup_entry sid k r1)) = view c grp (snd (cleanup_entry sid k r2))"
    by simp_all
  from Cons.IH[OF rest oks]
  have kept': "hide_rooms c (fst (cleanupUser sid rs1)) = hide_rooms c (fst (cleanupUser sid rs2'))"
    and seen': "view c grp (snd (cleanupUser sid rs1)) = view c grp (snd (cleanupUser sid rs2'))"
    by simp_all
  have "hide_rooms c (fst (cleanupUser sid ((k, r1) # rs1)))
        = hide_rooms c (fst (cleanupUser sid ((k, r2) # rs2')))"
    unfolding cleanupUser_Cons_fst using kept kept'
    by (cases "fst (cleanup_entry sid k r1)"; cases "fst (cleanup_entry sid k r2)")
       (simp_all add: hide_rooms_def)
  moreover have "view c grp (snd (cleanupUser sid ((k, r1) # rs1)))
                 = view c grp (snd (cleanupUser sid ((k, r2) # rs2')))"
    unfolding cleanupUser_Cons_snd using seen seen' by (simp add: view_append)
  ultimately show ?case
    unfolding x rs2 by simp
qed

lemma disconnect_unwinding:
  assumes "wf_state s1" and "\<forall>(g, y) \<in> set grp. is_room_code g"
    and "hide c s1 = hide c s2"
    and "on_disconnect sid s1 = Returns s1' em1"
    and "on_disconnect sid s2 = Returns s2' em2"
  shows "hide c s1' = hide c s2' \<and> view c grp em1 = view c grp em2"
proof -
  from assms(3) have same: "sockets s1 = sockets s2" "groups s1 = groups s2"
    and hr: "hide_rooms c (rooms s1) = hide_rooms c (rooms s2)"
    by (simp_all add: hide_eq_iff)
  from assms(1) have oks: "\<forall>(k, r) \<in> set (rooms s1). room_ok r"
    by (auto simp: wf_state_def registry_ok_def)
  from assms(4) have s1': "s1' = transport_drop sid s1\<lparr>rooms := fst (cleanupUser sid (rooms s1))\<rparr>"
    and em1: "em1 = snd (cleanupUser sid (rooms s1))"
    by (simp_all add: on_disconnect_rooms)
  from assms(5) have s2': "s2' = transport_drop sid s2\<lparr>rooms := fst (cleanupUser sid (rooms s2))\<rparr>"
    and em2: "em2 = snd (cleanupUser sid (rooms s2))"
    by (simp_all add: on_disconnect_rooms)
  from cleanupUser_unwinding[OF assms(2) hr oks, of sid] same show ?thesis
    unfolding s1' s2' em1 em2 hide_eq_iff by (simp add: transport_drop_def)
qed

lemma handle_unwinding:
  assumes "wf_state s1" and "wf_state s2" and "valid_socket_id sid"
    and "\<forall>(g, y) \<in> set grp. is_room_code g"
    and "hide c s1 = hide c s2"
    and "handle eng sid ev s1 = Returns s1' em1"
    and "handle eng sid ev s2 = Returns s2' em2"
  shows "hide c s1' = hide c s2' \<and> view c grp em1 = view c grp em2"
proof (cases ev)
  case Create_room
  with assms show ?thesis
    using create_room_unwinding[of c s1 s2 eng sid s1' em1 s2' em2 grp] by simp
next
  case (Join_room payload)
  with assms show ?thesis
    using join_room_unwinding[of s1 grp c s2 eng sid payload s1' em1 s2' em2] by simp
next
  case (Start_assign_roles payload)
  with assms show ?thesis
    using start_assign_roles_unwinding[of s1 s2 grp c payload payload eng eng sid s1' em1 s2' em2]
    by simp
next
  case (Reset_room payload)
  with assms show ?thesis
    using reset_room_unwinding[of c s1 s2 sid payload s1' em1 s2' em2 grp] by simp
next
  case (Kick_player payload)
  with assms show ?thesis
    using kick_player_unwinding[of sid grp c s1 s2 payload s1' em1 s2' em2] by simp
next
  case Disconnect
  with assms show ?thesis
    using disconnect_unwinding[of s1 grp c s2 sid s1' em1 s2' em2] by simp
qed

lemma deal_unwinding:
  assumes "wf_state s1" and "wf_state s2"
    and "\<forall>(g, y) \<in> set grp. is_room_code g"
    and "hide c s1 = hide c s2"
    and "deal_of ev1 \<noteq> None" and "deal_of ev1 = deal_of ev2"
    and "handle eng1 sid ev1 s1 = Returns s1' em1"
    and "handle eng2 sid ev2 s2 = Returns s2' em2"
    and "hide c s1' = hide c s2'"
  shows "view c grp em1 = view c grp em2"
proof -
  from assms(5) obtain p1 roles1 where ev1: "ev1 = Start_assign_roles p1"
    and sel1: "field p1 ''selectedRoles'' = JArr roles1"
    and d1: "deal_of ev1 = Some (field p1 ''roomId'', length roles1)"
    by (cases ev1; cases "field (case ev1 of Start_assign_roles p \<Rightarrow> p | _ \<Rightarrow> JNull) ''selectedRoles''")
       (auto simp: deal_of_def)
  from assms(5,6) have "deal_of ev2 \<noteq> None"
    by simp
  then obtain p2 roles2 where ev2: "ev2 = Start_assign_roles p2"
    and sel2: "field p2 ''selectedRoles'' = JArr roles2"
    and d2: "deal_of ev2 = Some (field p2 ''roomId'', length roles2)"
    by (cases ev2; cases "field (case ev2 of Start_assign_roles p \<Rightarrow> p | _ \<Rightarrow> JNull) ''selectedRoles''")
       (auto simp: deal_of_def)
  from assms(6) d1 d2 have rid: "field p1 ''roomId'' = field p2 ''roomId''"
    and len: "length roles1 = length roles2"
    by simp_all
  from sel1 sel2 len
  have sel: "(p1 = p2 \<and> eng1 = eng2)
            \<or> (\<exists>roles1 roles2. field p1 ''selectedRoles'' = JArr roles1
                  \<and> field p2 ''selectedRoles'' = JArr roles2
                  \<and> length roles1 = length roles2)"
    by blast
  from assms(7) ev1 have r1: "on_start_assign_roles eng1 sid p1 s1 = Returns s1' em1"
    by simp
  from assms(8) ev2 have r2: "on_start_assign_roles eng2 sid p2 s2 = Returns s2' em2"
    by simp
  from start_assign_roles_unwinding[OF assms(1,2,3,4) rid sel r1 r2] assms(9) show ?thesis
    by simp
qed

lemma raises_unwinding:
  assumes "hide c s1 = hide c s2"
  shows "raises eng sid ev s1 = raises eng sid ev s2"
proof -
  from assms have hr: "hide_rooms c (rooms s1) = hide_rooms c (rooms s2)"
    by (simp add: hide_eq_iff)
  have assign: "raises eng sid (Start_assign_roles payload) s1
                = raises eng sid (Start_assign_roles payload) s2" for payload
  proof (cases "rooms_get (rooms s1) (field payload ''roomId'')")
    case None
    with hide_rooms_get_None[OF hr] have "rooms_get (rooms s2) (field payload ''roomId'') = None"
      by simp
    with None show ?thesis
      by (simp add: raises_def)
  next
    case (Some room1)
    from rooms_get_SomeD[OF Some] obtain k where k: "field payload ''roomId'' = JStr k"
      and m1: "map_of (rooms s1) k = Some room1"
      by blast
    from hide_rooms_Some[OF hr m1] obtain room2 where m2: "map_of (rooms s2) k = Some room2"
      and hrm: "hide_room c room1 = hide_room c room2"
      by blast
    from hide_room_eqD(1,5)[OF hrm] k m1 m2 show ?thesis
      by (simp add: raises_def rooms_get_def cong: jsval.case_cong)
  qed
  show ?thesis
  proof (cases ev)
    case Create_room
    with hide_rooms_has[OF hr] show ?thesis
      by (simp add: raises_def)
  next
    case (Start_assign_roles payload)
    with assign show ?thesis
      by simp
  qed (simp_all add: raises_def)
qed

lemma deal_never_raises:
  assumes "deal_of ev \<noteq> None"
  shows "raises eng sid ev s = None"
proof -
  from assms obtain payload roles where ev: "ev = Start_assign_roles payload"
    and sel: "field payload ''selectedRoles'' = JArr roles"
    by (cases ev; cases "field (case ev of Start_assign_roles p \<Rightarrow> p | _ \<Rightarrow> JNull) ''selectedRoles''")
       (auto simp: deal_of_def)
  from sel have "\<not> nullish payload"
    by (auto simp: field_def nullish_def)
  with ev sel show ?thesis
    by (simp add: raises_def split: option.splits)
qed

text \<open>
  Claim C7. Take a reachable state \<open>s1\<close>, a live connection \<open>sid\<close> whose event the handler
  returns from, and any connection \<open>c\<close>. First, every message \<open>c\<close> is sent, under the group
  memberships before the event and under those after it, is rightly addressed: a
  \<^verbatim>\<open>receive_role\<close> carries the role \<open>c\<close> itself holds, a player list or a role summary is
  that of a room \<open>c\<close> moderates. Second, what \<open>c\<close> is sent does not depend on the roles of
  the other players in the rooms \<open>c\<close> does not moderate: in any reachable state \<open>s2\<close> that
  differs from \<open>s1\<close> in those roles only, the same event, or a deal for the same room with
  as many roles but other roles and other draws, is returned from as well; it leaves
  states that again differ in those roles only (for the same event always; for another
  deal when \<open>c\<close> is dealt the same role), and then \<open>c\<close> is sent the same messages in both
  runs, whatever their fields and texts.
\<close>

theorem role_privacy:
  assumes "exec tr1 init = Some s1" and "exec tr2 init = Some s2"
    and "sid \<in> set (sockets s1)"
    and "hide c s1 = hide c s2"
    and "alike eng1 ev1 eng2 ev2"
    and "handle eng1 sid ev1 s1 = Returns s1' em1"
  shows "(\<forall>m \<in> set (view c (groups s1) em1) \<union> set (view c (groups s1') em1).
            rightly_addressed s1' c m)
       \<and> (\<exists>s2' em2. handle eng2 sid ev2 s2 = Returns s2' em2
             \<and> (ev1 = ev2 \<and> eng1 = eng2 \<longrightarrow> hide c s1' = hide c s2')
             \<and> (hide c s1' = hide c s2'
                  \<longrightarrow> view c (groups s1) em1 = view c (groups s2) em2
                      \<and> view c (groups s1') em1 = view c (groups s2') em2))"
proof -
  from assms(1) have wf1: "wf_state s1"
    by (rule wf_reachable)
  from assms(2) have wf2: "wf_state s2"
    by (rule wf_reachable)
  from wf1 assms(3) have valid: "valid_socket_id sid"
    by (simp add: wf_state_def)
  from wf_handle[OF wf1 valid assms(6)] have wf1': "wf_state s1'" .
  from wf1 have g: "\<forall>(g, y) \<in> set (groups s1). is_room_code g"
    by (simp add: wf_state_def)
  from wf1' have g': "\<forall>(g, y) \<in> set (groups s1'). is_room_code g"
    by (simp add: wf_state_def)
  from assms(4) have groups: "groups s2 = groups s1"
    by (simp add: hide_eq_iff)
  have addressed: "rightly_addressed s1' c m"
    if "m \<in> set (view c (groups s1) em1) \<union> set (view c (groups s1') em1)" for m
  proof -
    from that obtain d where sent: "(d, m) \<in> set em1"
      and got: "receives (groups s1) d c \<or> receives (groups s1') d c"
      by (auto simp: view_set)
    from got show ?thesis
    proof
      assume "receives (groups s1) d c"
      from handle_addressing[OF wf1 valid assms(6) sent g this] show ?thesis .
    next
      assume "receives (groups s1') d c"
      from handle_addressing[OF wf1 valid assms(6) sent g' this] show ?thesis .
    qed
  qed
  from assms(6) have none1: "raises eng1 sid ev1 s1 = None"
    using handle_Returns_iff[of eng1 sid ev1 s1] by blast
  from assms(5) have "(ev1 = ev2 \<and> eng1 = eng2) \<or> deal_of ev2 \<noteq> None"
    unfolding alike_def by metis
  then have "raises eng2 sid ev2 s2 = None"
  proof
    assume "ev1 = ev2 \<and> eng1 = eng2"
    with raises_unwinding[OF assms(4), of eng1 sid ev1] none1 show ?thesis
      by simp
  next
    assume "deal_of ev2 \<noteq> None"
    then show ?thesis
      by (rule deal_never_raises)
  qed
  then obtain s2' em2 where run2: "handle eng2 sid ev2 s2 = Returns s2' em2"
    using handle_Returns_iff[of eng2 sid ev2 s2] by blast
  have step: "hide c s1' = hide c s2'" if "ev1 = ev2 \<and> eng1 = eng2"
    using handle_unwinding[OF wf1 wf2 valid g assms(4) assms(6), of s2' em2] run2 that
    by simp
  have seen: "view c grp em1 = view c grp em2"
    if post: "hide c s1' = hide c s2'" and names: "\<forall>(g, y) \<in> set grp. is_room_code g" for grp
  proof (cases "ev1 = ev2 \<and> eng1 = eng2")
    case True
    with handle_unwinding[OF wf1 wf2 valid names assms(4) assms(6), of s2' em2] run2
    show ?thesis
      by simp
  next
    case False
    with assms(5) have "deal_of ev1 \<noteq> None" and "deal_of ev1 = deal_of ev2"
      unfolding alike_def by blast+
    from deal_unwinding[OF wf1 wf2 names assms(4) this assms(6) run2 post] show ?thesis .
  qed
  have "view c (groups s1) em1 = view c (groups s2) em2
        \<and> view c (groups s1') em1 = view c (groups s2') em2"
    if post: "hide c s1' = hide c s2'"
  proof -
    from post have "groups s2' = groups s1'"
      by (simp add: hide_eq_iff)
    with seen[OF post g] seen[OF post g'] groups show ?thesis
      by simp
  qed
  with addressed run2 step show ?thesis
    by blast
qed

text \<open>
  A run of C7: the moderator creates the room ABCD, Ana and Bob join, and the moderator
  deals, on an engine whose every draw is 0, either Seer and Wolf or Villager and Wolf.
  Ana is dealt Wolf both times, Bob Seer the one time and Villager the other; Ana is
  sent one message, the same in both runs, her own role.
\<close>

lemma exec_two_joined:
  "exec [Connect ''mod'', Connect ''ana'', Connect ''bob'',
         Inbound ''mod'' Create_room counting,
         Inbound ''ana'' (Join_room (join_as ''abcd '' ''Ana'')) counting,
         Inbound ''bob'' (Join_room (join_as ''ABCD'' ''Bob'')) counting]
     init
   = Some \<lparr>rooms = [(''ABCD'', \<lparr>moderatorId = Some ''mod'',
                       players = [\<lparr>pid = ''ana'', name = JStr ''Ana'', role = JNull\<rparr>,
                                  \<lparr>pid = ''bob'', name = JStr ''Bob'', role = JNull\<rparr>],
                       status = Waiting\<rparr>)],
           sockets = [''mod'', ''ana'', ''bob''],
           groups = [(''ABCD'', ''bob''), (''ABCD'', ''ana''), (''ABCD'', ''mod'')]\<rparr>"
  by (simp add: init_def connection_def valid_socket_id_example create_room_example
      on_join_room_def join_as_def field_def nullish_def normalise_example Let_def truthy_def)

lemma deal_example:
  "handle zeros ''mod'' (Start_assign_roles (deal ''ABCD'' [x, y]))
     \<lparr>rooms = [(''ABCD'', \<lparr>moderatorId = Some ''mod'',
                  players = [\<lparr>pid = ''ana'', name = JStr ''Ana'', role = JNull\<rparr>,
                             \<lparr>pid = ''bob'', name = JStr ''Bob'', role = JNull\<rparr>],
                  status = Waiting\<rparr>)],
       sockets = [''mod'', ''ana'', ''bob''],
       groups = [(''ABCD'', ''bob''), (''ABCD'', ''ana''), (''ABCD'', ''mod'')]\<rparr>
   = Returns
       \<lparr>rooms = [(''ABCD'', \<lparr>moderatorId = Some ''mod'',
                    players = [\<lparr>pid = ''ana'', name = JStr ''Ana'', role = JStr y\<rparr>,
                               \<lparr>pid = ''bob'', name = JStr ''Bob'', role = JStr x\<rparr>],
                    status = Assigned\<rparr>)],
         sockets = [''mod'', ''ana'', ''bob''],
         groups = [(''ABCD'', ''bob''), (''ABCD'', ''ana''), (''ABCD'', ''mod'')]\<rparr>
       [(To_group ''ana'', Receive_role (JStr y)),
        (To_group ''bob'', Receive_role (JStr x)),
        (To_socket ''mod'', Role_summary [(JStr ''Ana'', JStr y), (JStr ''Bob'', JStr x)]),
        (To_socket ''mod'', Status_msg msg_assigned)]"
proof -
  have fy: "fisher_yates (random zeros) [JStr x, JStr y] = [JStr y, JStr x]"
    by (simp add: fisher_yates_def random_below_def zeros_def Let_def)
  show ?thesis
    by (simp add: on_start_assign_roles_def deal_def field_def nullish_def js_length_def
        spread_def fy buildRoleSummary_def Let_def)
qed

theorem role_privacy_witness:
  "exec [Connect ''mod'', Connect ''ana'', Connect ''bob'',
         Inbound ''mod'' Create_room counting,
         Inbound ''ana'' (Join_room (join_as ''abcd '' ''Ana'')) counting,
         Inbound ''bob'' (Join_room (join_as ''ABCD'' ''Bob'')) counting]
     init
   = Some \<lparr>rooms = [(''ABCD'', \<lparr>moderatorId = Some ''mod'',
                       players = [\<lparr>pid = ''ana'', name = JStr ''Ana'', role = JNull\<rparr>,
                                  \<lparr>pid = ''bob'', name = JStr ''Bob'', role = JNull\<rparr>],
                       status = Waiting\<rparr>)],
           sockets = [''mod'', ''ana'', ''bob''],
           groups = [(''ABCD'', ''bob''), (''ABCD'', ''ana''), (''ABCD'', ''mod'')]\<rparr>
   \<and> handle zeros ''mod'' (Start_assign_roles (deal ''ABCD'' [''Seer'', ''Wolf'']))
       \<lparr>rooms = [(''ABCD'', \<lparr>moderatorId = Some ''mod'',
                    players = [\<lparr>pid = ''ana'', name = JStr ''Ana'', role = JNull\<rparr>,
                               \<lparr>pid = ''bob'', name = JStr ''Bob'', role = JNull\<rparr>],
                    status = Waiting\<rparr>)],
         sockets = [''mod'', ''ana'', ''bob''],
         groups = [(''ABCD'', ''bob''), (''ABCD'', ''ana''), (''ABCD'', ''mod'')]\<rparr>
     = Returns
         \<lparr>rooms = [(''ABCD'', \<lparr>moderatorId = Some ''mod'',
                      players = [\<lparr>pid = ''ana'', name = JStr ''Ana'', role = JStr ''Wolf''\<rparr>,
                                 \<lparr>pid = ''bob'', name = JStr ''Bob'', role = JStr ''Seer''\<rparr>],
                      status = Assigned\<rparr>)],
           sockets = [''mod'', ''ana'', ''bob''],
           groups = [(''ABCD'', ''bob''), (''ABCD'', ''ana''), (''ABCD'', ''mod'')]\<rparr>
         [(To_group ''ana'', Receive_role (JStr ''Wolf'')),
          (To_group ''bob'', Receive_role (JStr ''Seer'')),
          (To_socket ''mod'', Role_summary [(JStr ''Ana'', JStr ''Wolf''),
                                            (JStr ''Bob'', JStr ''Seer'')]),
          (To_socket ''mod'', Status_msg msg_assigned)]
   \<and> handle zeros ''mod'' (Start_assign_roles (deal ''ABCD'' [''Villager'', ''Wolf'']))
       \<lparr>rooms = [(''ABCD'', \<lparr>moderatorId = Some ''mod'',
                    players = [\<lparr>pid = ''ana'', name = JStr ''Ana'', role = JNull\<rparr>,
                               \<lparr>pid = ''bob'', name = JStr ''Bob'', role = JNull\<rparr>],
                    status = Waiting\<rparr>)],
         sockets = [''mod'', ''ana'', ''bob''],
         groups = [(''ABCD'', ''bob''), (''ABCD'', ''ana''), (''ABCD'', ''mod'')]\<rparr>
     = Returns
         \<lparr>rooms = [(''ABCD'', \<lparr>moderatorId = Some ''mod'',
                      players = [\<lparr>pid = ''ana'', name = JStr ''Ana'', role = JStr ''Wolf''\<rparr>,
                                 \<lparr>pid = ''bob'', name = JStr ''Bob'', role = JStr ''Villager''\<rparr>],
                      status = Assigned\<rparr>)],
           sockets = [''mod'', ''ana'', ''bob''],
           groups = [(''ABCD'', ''bob''), (''ABCD'', ''ana''), (''ABCD'', ''mod'')]\<rparr>
         [(To_group ''ana'', Receive_role (JStr ''Wolf'')),
          (To_group ''bob'', Receive_role (JStr ''Villager'')),
          (To_socket ''mod'', Role_summary [(JStr ''Ana'', JStr ''Wolf''),
                                            (JStr ''Bob'', JStr ''Villager'')]),
          (To_socket ''mod'', Status_msg msg_assigned)]
   \<and> view ''ana'' [(''ABCD'', ''bob''), (''ABCD'', ''ana''), (''ABCD'', ''mod'')]
         [(To_group ''ana'', Receive_role (JStr ''Wolf'')),
          (To_group ''bob'', Receive_role (JStr ''Seer'')),
          (To_socket ''mod'', Role_summary [(JStr ''Ana'', JStr ''Wolf''),
                                            (JStr ''Bob'', JStr ''Seer'')]),
          (To_socket ''mod'', Status_msg msg_assigned)]
     = [Receive_role (JStr ''Wolf'')]
   \<and> view ''ana'' [(''ABCD'', ''bob''), (''ABCD'', ''ana''), (''ABCD'', ''mod'')]
         [(To_group ''ana'', Receive_role (JStr ''Wolf'')),
          (To_group ''bob'', Receive_role (JStr ''Villager'')),
          (To_socket ''mod'', Role_summary [(JStr ''Ana'', JStr ''Wolf''),
                                            (JStr ''Bob'', JStr ''Villager'')]),
          (To_socket ''mod'', Status_msg msg_assigned)]
     = [Receive_role (JStr ''Wolf'')]
   \<and> rightly_addressed
         \<lparr>rooms = [(''ABCD'', \<lparr>moderatorId = Some ''mod'',
                      players = [\<lparr>pid = ''ana'', name = JStr ''Ana'', role = JStr ''Wolf''\<rparr>,
                                 \<lparr>pid = ''bob'', name = JStr ''Bob'', role = JStr ''Seer''\<rparr>],
                      status = Assigned\<rparr>)],
           sockets = [''mod'', ''ana'', ''bob''],
           groups = [(''ABCD'', ''bob''), (''ABCD'', ''ana''), (''ABCD'', ''mod'')]\<rparr>
         ''ana'' (Receive_role (JStr ''Wolf''))"
proof -
  let ?s = "\<lparr>rooms = [(''ABCD'', \<lparr>moderatorId = Some ''mod'',
                       players = [\<lparr>pid = ''ana'', name = JStr ''Ana'', role = JNull\<rparr>,
                                  \<lparr>pid = ''bob'', name = JStr ''Bob'', role = JNull\<rparr>],
                       status = Waiting\<rparr>)],
             sockets = [''mod'', ''ana'', ''bob''],
             groups = [(''ABCD'', ''bob''), (''ABCD'', ''ana''), (''ABCD'', ''mod'')]\<rparr>"
  let ?s1 = "\<lparr>rooms = [(''ABCD'', \<lparr>moderatorId = Some ''mod'',
                      players = [\<lparr>pid = ''ana'', name = JStr ''Ana'', role = JStr ''Wolf''\<rparr>,
                                 \<lparr>pid = ''bob'', name = JStr ''Bob'', role = JStr ''Seer''\<rparr>],
                      status = Assigned\<rparr>)],
              sockets = [''mod'', ''ana'', ''bob''],
              groups = [(''ABCD'', ''bob''), (''ABCD'', ''ana''), (''ABCD'', ''mod'')]\<rparr>"
  let ?s2 = "\<lparr>rooms = [(''ABCD'', \<lparr>moderatorId = Some ''mod'',
                      players = [\<lparr>pid = ''ana'', name = JStr ''Ana'', role = JStr ''Wolf''\<rparr>,
                                 \<lparr>pid = ''bob'', name = JStr ''Bob'', role = JStr ''Villager''\<rparr>],
                      status = Assigned\<rparr>)],
              sockets = [''mod'', ''ana'', ''bob''],
              groups = [(''ABCD'', ''bob''), (''ABCD'', ''ana''), (''ABCD'', ''mod'')]\<rparr>"
  let ?em1 = "[(To_group ''ana'', Receive_role (JStr ''Wolf'')),
               (To_group ''bob'', Receive_role (JStr ''Seer'')),
               (To_socket ''mod'', Role_summary [(JStr ''Ana'', JStr ''Wolf''),
                                                 (JStr ''Bob'', JStr ''Seer'')]),
               (To_socket ''mod'', Status_msg msg_assigned)]"
  let ?em2 = "[(To_group ''ana'', Receive_role (JStr ''Wolf'')),
               (To_group ''bob'', Receive_role (JStr ''Villager'')),
               (To_socket ''mod'', Role_summary [(JStr ''Ana'', JStr ''Wolf''),
                                                 (JStr ''Bob'', JStr ''Villager'')]),
               (To_socket ''mod'', Status_msg msg_assigned)]"
  let ?ev1 = "Start_assign_roles (deal ''ABCD'' [''Seer'', ''Wolf''])"
  let ?ev2 = "Start_assign_roles (deal ''ABCD'' [''Villager'', ''Wolf''])"
  have live: "''mod'' \<in> set (sockets ?s)"
    by simp
  have like: "alike zeros ?ev1 zeros ?ev2"
    by (simp add: alike_def deal_of_def deal_def field_def)
  have run1: "handle zeros ''mod'' ?ev1 ?s = Returns ?s1 ?em1"
    by (rule deal_example)
  have run2: "handle zeros ''mod'' ?ev2 ?s = Returns ?s2 ?em2"
    by (rule deal_example)
  have post: "hide ''ana'' ?s1 = hide ''ana'' ?s2"
    by (simp add: hide_def hide_rooms_def hide_room_def blank_def)
  have seen1: "view ''ana'' (groups ?s) ?em1 = [Receive_role (JStr ''Wolf'')]"
    by (simp add: view_def receives_def)
  note privacy = role_privacy[OF exec_two_joined exec_two_joined live refl like run1, of "''ana''"]
  from privacy seen1 have "rightly_addressed ?s1 ''ana'' (Receive_role (JStr ''Wolf''))"
    by simp
  moreover from privacy run2 post have "view ''ana'' (groups ?s) ?em1 = view ''ana'' (groups ?s) ?em2"
    by auto
  ultimately show ?thesis
    using exec_two_joined run1 run2 seen1 by simp
qed

end
